theory Spec2Isabelle
  imports Main "HOL-Library.Sublist"
begin

section \<open>MCServerStatus: a shallow embedding of \<open>MCServerStatus.py\<close>\<close>

text \<open>
  The program keeps a list of tracked Minecraft servers (\<open>client.servers\<close>), mirrors the
  status of each one into a Discord message, and saves the list to \<open>info.json\<close>.
  The embedding makes the three collaborators explicit:
  \<^item> the status source, the Discord client and the clock are oracles, collected in the
    record \<open>Env\<close>; every call that can raise returns a sum or an option; the address
    lookup of the status library is a function of its own, \<open>Lookup\<close>, the same in all calls;
  \<^item> what the program mutates (the server list, the file \<open>info.json\<close>, the content of
    the Discord messages, the printed log) is the record \<open>World\<close>, passed explicitly;
  \<^item> a coroutine that can raise returns the exception together with the world at the
    moment of the raise, since the bot keeps running after a failed command.
\<close>

subsection \<open>Strings\<close>

text \<open>Python's \<open>str(int)\<close>, as used by the f-strings of the source.\<close>

definition digit_char :: "nat \<Rightarrow> char" where
  "digit_char d = ''0123456789'' ! d"

fun str_nat :: "nat \<Rightarrow> string" where
  "str_nat n = (if n < 10 then [digit_char n] else str_nat (n div 10) @ [digit_char (n mod 10)])"

declare str_nat.simps [simp del]

definition str_int :: "int \<Rightarrow> string" where
  "str_int i = (if i < 0 then CHR ''-'' # str_nat (nat (- i)) else str_nat (nat i))"

text \<open>The line feed of the Python literals \<open>'\n'\<close>.\<close>

definition nl :: string where
  "nl = [CHR 0x0A]"

subsection \<open>Exceptions\<close>

text \<open>
  \<open>StatusQueryError d\<close>: raised by \<open>self.server.status()\<close>, with \<open>str(e) = d\<close>.
  \<open>DiscordError d\<close>: raised by \<open>channel.send\<close>, \<open>message.edit\<close> or \<open>channel.fetch_message\<close>.
  \<open>NoneNotIterable\<close>: the \<open>TypeError\<close> of \<open>for player in None\<close>.
  \<open>NoneAttribute a\<close>: the \<open>AttributeError\<close> of \<open>None.a\<close>.
  \<open>ValueError d\<close>: raised by \<open>JavaServer.lookup\<close> for an address it cannot parse.
\<close>

datatype error =
    StatusQueryError string
  | DiscordError string
  | NoneNotIterable
  | NoneAttribute string
  | ValueError string

fun describe :: "error \<Rightarrow> string" where
  "describe (StatusQueryError d) = d"
| "describe (DiscordError d) = d"
| "describe NoneNotIterable = [CHR 0x27] @ ''NoneType'' @ [CHR 0x27] @ '' object is not iterable''"
| "describe (NoneAttribute a) =
     [CHR 0x27] @ ''NoneType'' @ [CHR 0x27] @ '' object has no attribute '' @ [CHR 0x27] @ a @ [CHR 0x27]"
| "describe (ValueError d) = d"

subsection \<open>Data model\<close>

record Guild =
  guild_id :: int

record TextChannel =
  channel_id :: int
  channel_guild :: Guild

record Message =
  message_id :: int
  message_channel :: TextChannel

text \<open>\<open>message.guild\<close> is the guild of the message's channel.\<close>

definition message_guild :: "Message \<Rightarrow> Guild" where
  "message_guild m = channel_guild (message_channel m)"

text \<open>\<open>status.players\<close>: the count and the optional sample of player names.\<close>

record Players =
  online :: int
  sample :: "string list option"

text \<open>
  The class \<open>MCServer\<close>. The field \<open>server\<close> (\<open>JavaServer.lookup(self.address)\<close>) is the
  handle on which \<open>status()\<close> is called; it is determined by the address, so the status
  oracle below is keyed by the address and the handle is not stored.
\<close>

record MCServer =
  name :: string
  address :: string
  guild :: "Guild option"
  channel :: "TextChannel option"
  message :: "Message option"

text \<open>
  \<open>JavaServer.lookup\<close>: \<open>None\<close> when it returns a handle, the exception when it raises.
  Whether an address can be parsed depends on the address alone, so the bot meets one
  such function in all its calls.
\<close>

type_synonym Lookup = "string \<Rightarrow> error option"

text \<open>The assignments of \<open>__init__\<close> (lines 32 to 39).\<close>

definition MCServer_fields :: "string \<Rightarrow> string \<Rightarrow> Message option \<Rightarrow> MCServer" where
  "MCServer_fields n a msg =
     \<lparr>name = n, address = a,
      guild = map_option message_guild msg,
      channel = map_option message_channel msg,
      message = msg\<rparr>"

text \<open>\<open>__init__\<close>: the lookup of line 40 is its last statement; when it raises, no server is made.\<close>

definition MCServer_init :: "Lookup \<Rightarrow> string \<Rightarrow> string \<Rightarrow> Message option \<Rightarrow> error + MCServer" where
  "MCServer_init lookup n a msg =
     (case lookup a of
        Some e \<Rightarrow> Inl e
      | None \<Rightarrow> Inr (MCServer_fields n a msg))"

text \<open>One record of \<open>info.json\<close>.\<close>

record Item =
  item_name :: string
  item_address :: string
  item_guild_id :: int
  item_channel_id :: int
  item_message_id :: int

record Interaction =
  interaction_guild :: Guild
  interaction_channel :: TextChannel

datatype Color = Blue

record Embed =
  title :: string
  description :: string
  color :: Color

text \<open>The arguments of \<open>interaction.response.send_message\<close>.\<close>

record Response =
  content :: string
  embed :: "Embed option"

text \<open>\<open>datetime.datetime.now().astimezone()\<close>, as far as \<open>get_log_time\<close> reads it.\<close>

record Time =
  hour :: nat
  minute :: nat
  second :: nat

text \<open>
  The collaborators. \<open>status a\<close> is the outcome of \<open>JavaServer.lookup(a).status()\<close>;
  \<open>send c s\<close> is the id of the message created by \<open>c.send(content=s)\<close>, or what it raises;
  \<open>edit m s\<close> is what \<open>m.edit(content=s)\<close> raises, if anything; \<open>get_guild\<close> and
  \<open>get_channel\<close> return \<open>None\<close> for an unknown id; \<open>fetch_message\<close> raises for a message
  that cannot be fetched; \<open>user\<close> is \<open>client.user\<close> as printed; \<open>now k\<close> is the clock read
  when the \<open>k\<close>-th line is printed.
\<close>

record Env =
  status :: "string \<Rightarrow> error + Players"
  send :: "TextChannel \<Rightarrow> string \<Rightarrow> error + int"
  edit :: "Message \<Rightarrow> string \<Rightarrow> error option"
  get_guild :: "int \<Rightarrow> Guild option"
  get_channel :: "Guild \<Rightarrow> int \<Rightarrow> TextChannel option"
  fetch_message :: "TextChannel \<Rightarrow> int \<Rightarrow> error + Message"
  user :: string
  now :: "nat \<Rightarrow> Time"

text \<open>
  The mutable state: \<open>client.servers\<close>, the records of \<open>info.json\<close> (\<open>None\<close> when the file
  does not exist), the content of each Discord message by message id, and the printed
  lines, each as the pair of its timestamp and the text after \<open>'> '\<close>.
\<close>

record World =
  servers :: "MCServer list"
  info_json :: "Item list option"
  message_content :: "int \<rightharpoonup> string"
  printed :: "(string \<times> string) list"

subsection \<open>Logging\<close>

definition two_digits :: "nat \<Rightarrow> string" where
  "two_digits n = (if n < 10 then ''0'' else '''') @ str_nat n"

definition get_log_time :: "Time \<Rightarrow> string" where
  "get_log_time t = two_digits (hour t) @ '':'' @ two_digits (minute t) @ '':'' @ two_digits (second t)"

text \<open>\<open>print(f'{get_log_time()}> {s}')\<close>\<close>

definition log_line :: "Env \<Rightarrow> string \<Rightarrow> World \<Rightarrow> World" where
  "log_line env s w = w\<lparr>printed := printed w @ [(get_log_time (now env (length (printed w))), s)]\<rparr>"

subsection \<open>MCServer: rendering and message updates\<close>

text \<open>The loop \<open>for player in status.players.sample: content += f'{player.name}\n'\<close>.\<close>

fun add_players :: "string \<Rightarrow> string list \<Rightarrow> string" where
  "add_players c [] = c"
| "add_players c (p # ps) = add_players (c @ p @ nl) ps"

definition get_content :: "Env \<Rightarrow> MCServer \<Rightarrow> error + string" where
  "get_content env s =
     (case status env (address s) of
        Inl e \<Rightarrow> Inl e
      | Inr players \<Rightarrow>
          (let c = name s @ '' is **online** with '' @ str_int (online players) @ '' online player''
           in if online players = 0 then Inr (c @ ''s.'')
              else (let c' = (if online players = 1
                              then c @ ''.'' @ nl @ nl @ ''Player:'' @ nl
                              else c @ ''s.'' @ nl @ nl @ ''Players:'' @ nl)
                    in (case sample players of
                          None \<Rightarrow> Inl NoneNotIterable
                        | Some ps \<Rightarrow> Inr (add_players c' ps)))))"

definition set_content :: "Message \<Rightarrow> string \<Rightarrow> World \<Rightarrow> World" where
  "set_content m c w = w\<lparr>message_content := (message_content w)(message_id m \<mapsto> c)\<rparr>"

definition handle_exception :: "Env \<Rightarrow> MCServer \<Rightarrow> error \<Rightarrow> World \<Rightarrow> error option \<times> World" where
  "handle_exception env s e w =
     (case message s of
        None \<Rightarrow> (Some (NoneAttribute ''edit''), w)
      | Some m \<Rightarrow>
          (let c = name s @ '' is **offline**: '' @ describe e
           in (case edit env m c of
                 Some e' \<Rightarrow> (Some e', w)
               | None \<Rightarrow>
                   (None, log_line env (''Error looking up server '' @ name s @ '' ('' @ address s
                                        @ '') status: '' @ describe e) (set_content m c w)))))"

definition get_status :: "Env \<Rightarrow> MCServer \<Rightarrow> World \<Rightarrow> error option \<times> World" where
  "get_status env s w =
     (case get_content env s of
        Inl e \<Rightarrow> handle_exception env s e w
      | Inr c \<Rightarrow>
          (case message s of
             None \<Rightarrow> handle_exception env s (NoneAttribute ''edit'') w
           | Some m \<Rightarrow>
               (case edit env m c of
                  Some e \<Rightarrow> handle_exception env s e w
                | None \<Rightarrow> (None, set_content m c w))))"

definition make_message :: "Env \<Rightarrow> MCServer \<Rightarrow> TextChannel \<Rightarrow> World \<Rightarrow> (error + MCServer) \<times> World" where
  "make_message env s ch w =
     (if message s \<noteq> None then (Inr s, w)
      else
        let failed = (\<lambda>e. case handle_exception env s e w of
                             (Some e', w') \<Rightarrow> (Inl e', w')
                           | (None, w') \<Rightarrow> (Inr s, w'))
        in case get_content env s of
             Inl e \<Rightarrow> failed e
           | Inr c \<Rightarrow>
               (case send env ch c of
                  Inl e \<Rightarrow> failed e
                | Inr i \<Rightarrow>
                    let m = \<lparr>message_id = i, message_channel = ch\<rparr>
                    in (Inr (s\<lparr>message := Some m,
                               channel := Some (message_channel m),
                               guild := Some (message_guild m)\<rparr>),
                        set_content m c w)))"

subsection \<open>MCStatusClient: the snapshot file\<close>

text \<open>
  One iteration of the loop of \<open>write_json_file\<close>: \<open>server.guild.id\<close>,
  \<open>server.channel.id\<close> and \<open>server.message.id\<close> raise on \<open>None\<close>.
\<close>

definition server_dict :: "MCServer \<Rightarrow> error + Item" where
  "server_dict s =
     (case guild s of
        None \<Rightarrow> Inl (NoneAttribute ''id'')
      | Some g \<Rightarrow>
          (case channel s of
             None \<Rightarrow> Inl (NoneAttribute ''id'')
           | Some c \<Rightarrow>
               (case message s of
                  None \<Rightarrow> Inl (NoneAttribute ''id'')
                | Some m \<Rightarrow>
                    Inr \<lparr>item_name = name s, item_address = address s,
                         item_guild_id = guild_id g, item_channel_id = channel_id c,
                         item_message_id = message_id m\<rparr>)))"

fun server_dicts :: "MCServer list \<Rightarrow> error + Item list" where
  "server_dicts [] = Inr []"
| "server_dicts (s # ss) =
     (case server_dict s of
        Inl e \<Rightarrow> Inl e
      | Inr d \<Rightarrow> (case server_dicts ss of Inl e \<Rightarrow> Inl e | Inr ds \<Rightarrow> Inr (d # ds)))"

text \<open>
  The file is opened only after the list of records is complete, so an exception in the
  loop leaves \<open>info.json\<close> as it was. Writing the file itself is taken to succeed.
\<close>

definition write_json_file :: "Env \<Rightarrow> World \<Rightarrow> error option \<times> World" where
  "write_json_file env w =
     (case server_dicts (servers w) of
        Inl e \<Rightarrow> (Some e, w)
      | Inr ds \<Rightarrow> (None, log_line env ''Successfully wrote info.json'' (w\<lparr>info_json := Some ds\<rparr>)))"

text \<open>
  The first three statements of the \<open>try\<close> of \<open>read_json_file\<close>: \<open>self.get_guild\<close> and
  \<open>guild.get_channel\<close> return \<open>None\<close> for an unknown id, on which the next attribute
  access raises.
\<close>

definition resolve :: "Env \<Rightarrow> Item \<Rightarrow> error + Message" where
  "resolve env item =
     (case get_guild env (item_guild_id item) of
        None \<Rightarrow> Inl (NoneAttribute ''get_channel'')
      | Some g \<Rightarrow>
          (case get_channel env g (item_channel_id item) of
             None \<Rightarrow> Inl (NoneAttribute ''fetch_message'')
           | Some c \<Rightarrow> fetch_message env c (item_message_id item)))"

text \<open>
  The inner loop \<open>for server in self.servers\<close>: one line is printed for every server
  that has the name and the address of the item.
\<close>

fun recognize :: "Env \<Rightarrow> Item \<Rightarrow> MCServer list \<Rightarrow> bool \<times> World \<Rightarrow> bool \<times> World" where
  "recognize env item [] fw = fw"
| "recognize env item (s # ss) (found, w) =
     (if name s = item_name item \<and> address s = item_address item
      then recognize env item ss
             (True, log_line env (''Recognized server '' @ item_name item @ '' with message id ''
                                  @ str_int (item_message_id item)) w)
      else recognize env item ss (found, w))"

text \<open>
  The body of the \<open>try\<close> of \<open>read_json_file\<close>: the three handles, then the constructor
  of \<open>MCServer\<close>, whose lookup can raise as well.
\<close>

definition rebuild :: "Lookup \<Rightarrow> Env \<Rightarrow> Item \<Rightarrow> error + MCServer" where
  "rebuild lookup env item =
     (case resolve env item of
        Inl e \<Rightarrow> Inl e
      | Inr m \<Rightarrow> MCServer_init lookup (item_name item) (item_address item) (Some m))"

text \<open>The body of the loop \<open>for item in data\<close>.\<close>

definition load_item :: "Lookup \<Rightarrow> Env \<Rightarrow> Item \<Rightarrow> World \<Rightarrow> World" where
  "load_item lookup env item w =
     (case recognize env item (servers w) (False, w) of
        (found, w1) \<Rightarrow>
          if found then w1
          else (case rebuild lookup env item of
                  Inl e \<Rightarrow> log_line env (''Failed to load server message: '' @ describe e) w1
                | Inr server \<Rightarrow>
                    log_line env (''Recovered server '' @ item_name item @ '' with message id ''
                                  @ str_int (item_message_id item))
                      (w1\<lparr>servers := servers w1 @ [server]\<rparr>)))"

fun load_items :: "Lookup \<Rightarrow> Env \<Rightarrow> Item list \<Rightarrow> World \<Rightarrow> World" where
  "load_items lookup env [] w = w"
| "load_items lookup env (item # items) w = load_items lookup env items (load_item lookup env item w)"

definition read_json_file :: "Lookup \<Rightarrow> Env \<Rightarrow> World \<Rightarrow> World" where
  "read_json_file lookup env w =
     (case info_json w of
        None \<Rightarrow> log_line env ''info.json does not exist yet'' w
      | Some data \<Rightarrow>
          log_line env ''Successfully loaded info.json''
            (load_items lookup env data (log_line env ''Reading info.json'' w)))"

subsection \<open>The poller\<close>

text \<open>\<open>for server in client.servers: await server.get_status()\<close>: an exception ends the loop.\<close>

fun poll_loop :: "Env \<Rightarrow> MCServer list \<Rightarrow> World \<Rightarrow> error option \<times> World" where
  "poll_loop env [] w = (None, w)"
| "poll_loop env (s # ss) w =
     (case get_status env s w of
        (Some e, w') \<Rightarrow> (Some e, w')
      | (None, w') \<Rightarrow> poll_loop env ss w')"

definition poll_servers :: "Env \<Rightarrow> World \<Rightarrow> error option \<times> World" where
  "poll_servers env w = poll_loop env (servers w) w"

subsection \<open>The commands\<close>

text \<open>
  The loop of \<open>addserver_command\<close> returns at the first server with the address. After
  the loop, the constructor of line 174 can raise before anything is sent or appended.
\<close>

fun find_address :: "string \<Rightarrow> MCServer list \<Rightarrow> MCServer option" where
  "find_address a [] = None"
| "find_address a (s # ss) = (if address s = a then Some s else find_address a ss)"

definition message_link :: "MCServer \<Rightarrow> error + string" where
  "message_link s =
     (case guild s of
        None \<Rightarrow> Inl (NoneAttribute ''id'')
      | Some g \<Rightarrow>
          (case channel s of
             None \<Rightarrow> Inl (NoneAttribute ''id'')
           | Some c \<Rightarrow>
               (case message s of
                  None \<Rightarrow> Inl (NoneAttribute ''id'')
                | Some m \<Rightarrow>
                    Inr (''https://discord.com/channels/'' @ str_int (guild_id g) @ ''/''
                         @ str_int (channel_id c) @ ''/'' @ str_int (message_id m)))))"

definition addserver_command ::
  "Lookup \<Rightarrow> Env \<Rightarrow> Interaction \<Rightarrow> string \<Rightarrow> string \<Rightarrow> int \<Rightarrow> World
     \<Rightarrow> (error + Response) \<times> World" where
  "addserver_command lookup env interaction ip nm port w =
     (let a = ip @ '':'' @ str_int port
      in case find_address a (servers w) of
           Some s \<Rightarrow>
             (case message_link s of
                Inl e \<Rightarrow> (Inl e, w)
              | Inr link \<Rightarrow>
                  (Inr \<lparr>content = ''This server is already added!'',
                        embed = Some \<lparr>title = ''Status'',
                                      description = ''[Go to Message]('' @ link @ '')'',
                                      color = Blue\<rparr>\<rparr>, w))
         | None \<Rightarrow>
             (case MCServer_init lookup nm a None of
                Inl e \<Rightarrow> (Inl e, w)
              | Inr server \<Rightarrow>
                  (case make_message env server (interaction_channel interaction) w of
                     (Inl e, w1) \<Rightarrow> (Inl e, w1)
                   | (Inr s, w1) \<Rightarrow>
                       (case write_json_file env (w1\<lparr>servers := servers w1 @ [s]\<rparr>) of
                          (Some e, w2) \<Rightarrow> (Inl e, w2)
                        | (None, w2) \<Rightarrow>
                            (Inr \<lparr>content = ''__'' @ name s @ '' Server Status__'', embed = None\<rparr>,
                             w2)))))"

text \<open>
  The loop of \<open>removeserver_command\<close> over \<open>client.servers.copy()\<close>: the first server whose
  address contains \<open>ip\<close> and whose message is in the guild of the interaction. The guild
  is read only when the address matches (\<open>and\<close> is short-circuit).
\<close>

fun find_removable :: "Interaction \<Rightarrow> string \<Rightarrow> MCServer list \<Rightarrow> error + MCServer option" where
  "find_removable interaction ip [] = Inr None"
| "find_removable interaction ip (s # ss) =
     (if sublist ip (address s)
      then (case message s of
              None \<Rightarrow> Inl (NoneAttribute ''channel'')
            | Some m \<Rightarrow>
                if guild_id (channel_guild (message_channel m)) = guild_id (interaction_guild interaction)
                then Inr (Some s)
                else find_removable interaction ip ss)
      else find_removable interaction ip ss)"

text \<open>The loop \<open>for server in client.servers: response += f'{server.address}\n'\<close>.\<close>

fun add_addresses :: "string \<Rightarrow> MCServer list \<Rightarrow> string" where
  "add_addresses r [] = r"
| "add_addresses r (s # ss) = add_addresses (r @ address s @ nl) ss"

definition removeserver_command ::
  "Interaction \<Rightarrow> string \<Rightarrow> World \<Rightarrow> (error + Response) \<times> World" where
  "removeserver_command interaction ip w =
     (case find_removable interaction ip (servers w) of
        Inl e \<Rightarrow> (Inl e, w)
      | Inr (Some s) \<Rightarrow>
          (Inr \<lparr>content = ''Removed server!'', embed = None\<rparr>,
           w\<lparr>servers := remove1 s (servers w)\<rparr>)
      | Inr None \<Rightarrow>
          (Inr \<lparr>content =
                  (if servers w = [] then ''There are no servers added.''
                   else add_addresses (''Did not find server.'' @ nl @ nl @ ''Existing Servers:'' @ nl)
                          (servers w)),
                embed = None\<rparr>, w))"

text \<open>
  \<open>on_ready\<close>: the snapshot is read only into an empty list of servers. Starting the
  poller is not part of the state; its ticks are \<open>poll_servers\<close>.
\<close>

definition on_ready :: "Lookup \<Rightarrow> Env \<Rightarrow> World \<Rightarrow> World" where
  "on_ready lookup env w =
     log_line env (user env @ '' has connected to Discord!'')
       (if servers w = [] then read_json_file lookup env w else w)"

subsection \<open>Notions used by the properties\<close>

text \<open>The identity under which a snapshot record and a tracked server are compared.\<close>

definition server_key :: "MCServer \<Rightarrow> string \<times> string" where
  "server_key s = (name s, address s)"

definition item_key :: "Item \<Rightarrow> string \<times> string" where
  "item_key item = (item_name item, item_address item)"

text \<open>A server as it is once its message exists: all three handles are set.\<close>

definition complete :: "MCServer \<Rightarrow> bool" where
  "complete s = (guild s \<noteq> None \<and> channel s \<noteq> None \<and> message s \<noteq> None)"

text \<open>The guild in which the message of a server lives, as \<open>removeserver_command\<close> reads it.\<close>

definition in_guild :: "int \<Rightarrow> MCServer \<Rightarrow> bool" where
  "in_guild g s =
     (case message s of
        None \<Rightarrow> False
      | Some m \<Rightarrow> guild_id (channel_guild (message_channel m)) = g)"

text \<open>A snapshot record whose guild, channel and message can all be resolved.\<close>

definition resolves :: "Env \<Rightarrow> Item \<Rightarrow> bool" where
  "resolves env item = (case resolve env item of Inl e \<Rightarrow> False | Inr m \<Rightarrow> True)"

text \<open>The server that \<open>read_json_file\<close> builds from a record that resolves.\<close>

definition recovered :: "Env \<Rightarrow> Item \<Rightarrow> MCServer" where
  "recovered env item =
     MCServer_fields (item_name item) (item_address item)
       (case resolve env item of Inl e \<Rightarrow> None | Inr m \<Rightarrow> Some m)"

text \<open>A server whose address the lookup accepts, and a snapshot record with such an address.\<close>

definition parsed :: "Lookup \<Rightarrow> MCServer \<Rightarrow> bool" where
  "parsed lookup s = (lookup (address s) = None)"

definition item_parsed :: "Lookup \<Rightarrow> Item \<Rightarrow> bool" where
  "item_parsed lookup item = (lookup (item_address item) = None)"

text \<open>A snapshot record that \<open>read_json_file\<close> turns into a server: nothing in the \<open>try\<close> raises.\<close>

definition loads :: "Lookup \<Rightarrow> Env \<Rightarrow> Item \<Rightarrow> bool" where
  "loads lookup env item = (resolves env item \<and> item_parsed lookup item)"

text \<open>The printed lines that report a record dropped during recovery.\<close>

definition is_warning :: "string \<times> string \<Rightarrow> bool" where
  "is_warning l = prefix ''Failed to load server message: '' (snd l)"

text \<open>A sequence of \<open>addserver\<close> invocations, each with the collaborators as they are then.\<close>

fun add_calls ::
  "Lookup \<Rightarrow> (Env \<times> Interaction \<times> string \<times> string \<times> int) list \<Rightarrow> World \<Rightarrow> World" where
  "add_calls lookup [] w = w"
| "add_calls lookup ((env, interaction, ip, nm, port) # cs) w =
     add_calls lookup cs (snd (addserver_command lookup env interaction ip nm port w))"

text \<open>
  A new process: \<open>MCStatusClient.__init__\<close> starts from \<open>self.servers = []\<close>; the file
  and the Discord messages are what the previous process left.
\<close>

definition restarted :: "World \<Rightarrow> World" where
  "restarted w = w\<lparr>servers := []\<rparr>"

text \<open>
  What happens to the bot: the two commands, \<open>on_ready\<close> (at the start and at every
  reconnection), the ticks of the poller, each with the collaborators as they are at
  that moment, and the start of a new process. An exception ends the command or the
  tick and the bot goes on.
\<close>

datatype event =
    Add Env Interaction string string int
  | Remove Interaction string
  | Ready Env
  | Tick Env
  | Restart

fun step :: "Lookup \<Rightarrow> event \<Rightarrow> World \<Rightarrow> World" where
  "step lookup (Add env interaction ip nm port) w =
     snd (addserver_command lookup env interaction ip nm port w)"
| "step lookup (Remove interaction ip) w = snd (removeserver_command interaction ip w)"
| "step lookup (Ready env) w = on_ready lookup env w"
| "step lookup (Tick env) w = snd (poll_servers env w)"
| "step lookup Restart w = restarted w"

fun run :: "Lookup \<Rightarrow> event list \<Rightarrow> World \<Rightarrow> World" where
  "run lookup [] w = w"
| "run lookup (e # es) w = run lookup es (step lookup e w)"

text \<open>
  The registry as the bot keeps it: every tracked server has its three handles and an
  address that the lookup accepts, and no two have the same name and address.
\<close>

definition registry_inv :: "Lookup \<Rightarrow> World \<Rightarrow> bool" where
  "registry_inv lookup w =
     (list_all complete (servers w) \<and> list_all (parsed lookup) (servers w)
      \<and> distinct (map server_key (servers w)))"

text \<open>
  The snapshot as the bot writes it: records with pairwise distinct names and addresses,
  each with an address that the lookup accepts.
\<close>

definition written :: "Lookup \<Rightarrow> World \<Rightarrow> bool" where
  "written lookup w =
     (case info_json w of
        None \<Rightarrow> True
      | Some items \<Rightarrow> distinct (map item_key items) \<and> list_all (item_parsed lookup) items)"

subsection \<open>The formats and the scope as the specification words them\<close>

text \<open>
  The renderer of the specification: \<open>"<name> is offline: <failureDescription>"\<close>,
  \<open>"<name> is online with 0 online players."\<close>, the singular header \<open>Player:\<close> for one
  player and the plural header \<open>Players:\<close> otherwise.
\<close>

definition spec_render_offline :: "string \<Rightarrow> string \<Rightarrow> string" where
  "spec_render_offline n d = n @ '' is offline: '' @ d"

definition spec_render_online :: "string \<Rightarrow> int \<Rightarrow> string list \<Rightarrow> string" where
  "spec_render_online n k ps =
     (if k = 0 then n @ '' is online with 0 online players.''
      else if k = 1
        then n @ '' is online with 1 online player.'' @ nl @ nl @ ''Player:'' @ nl
             @ concat (map (\<lambda>p. p @ nl) ps)
        else n @ '' is online with '' @ str_int k @ '' online players.'' @ nl @ nl @ ''Players:'' @ nl
             @ concat (map (\<lambda>p. p @ nl) ps))"

text \<open>The scope of the specification: a guild id and a channel id.\<close>

definition spec_scope_of_target :: "MCServer \<Rightarrow> (int \<times> int) option" where
  "spec_scope_of_target s =
     map_option (\<lambda>m. (guild_id (channel_guild (message_channel m)), channel_id (message_channel m)))
       (message s)"

definition spec_scope_of_caller :: "Interaction \<Rightarrow> int \<times> int" where
  "spec_scope_of_caller interaction =
     (guild_id (interaction_guild interaction), channel_id (interaction_channel interaction))"

text \<open>
  The response of the specification to a remove without a match: the addresses of the
  targets in the caller's scope.
\<close>

definition spec_not_found_response :: "Interaction \<Rightarrow> MCServer list \<Rightarrow> string" where
  "spec_not_found_response interaction ss =
     ''Did not find server.'' @ nl @ nl @ ''Existing Servers:'' @ nl
     @ concat (map (\<lambda>s. address s @ nl)
         (filter (\<lambda>s. spec_scope_of_target s = Some (spec_scope_of_caller interaction)) ss))"

subsection \<open>Concrete collaborators and states\<close>

definition guild_1 :: Guild where
  "guild_1 = \<lparr>guild_id = 1\<rparr>"

definition guild_2 :: Guild where
  "guild_2 = \<lparr>guild_id = 2\<rparr>"

definition channel_10 :: TextChannel where
  "channel_10 = \<lparr>channel_id = 10, channel_guild = guild_1\<rparr>"

definition channel_11 :: TextChannel where
  "channel_11 = \<lparr>channel_id = 11, channel_guild = guild_1\<rparr>"

definition channel_20 :: TextChannel where
  "channel_20 = \<lparr>channel_id = 20, channel_guild = guild_2\<rparr>"

definition message_100 :: Message where
  "message_100 = \<lparr>message_id = 100, message_channel = channel_10\<rparr>"

definition message_200 :: Message where
  "message_200 = \<lparr>message_id = 200, message_channel = channel_20\<rparr>"

definition survival :: MCServer where
  "survival = MCServer_fields ''Survival'' ''1.2.3.4:25565'' (Some message_100)"

definition creative :: MCServer where
  "creative = MCServer_fields ''Creative'' ''5.6.7.8:25565'' (Some message_200)"

text \<open>A lookup that rejects one address and accepts all others.\<close>

definition lookup_example :: Lookup where
  "lookup_example =
     (\<lambda>a. if a = ''nowhere:99999'' then Some (ValueError ''invalid address'') else None)"

definition survival_item :: Item where
  "survival_item = \<lparr>item_name = ''Survival'', item_address = ''1.2.3.4:25565'',
                    item_guild_id = 1, item_channel_id = 10, item_message_id = 100\<rparr>"

definition creative_item :: Item where
  "creative_item = \<lparr>item_name = ''Creative'', item_address = ''5.6.7.8:25565'',
                    item_guild_id = 2, item_channel_id = 20, item_message_id = 200\<rparr>"

text \<open>An interaction in the channel of the Survival message, and one in another channel of the same guild.\<close>

definition from_channel_10 :: Interaction where
  "from_channel_10 = \<lparr>interaction_guild = guild_1, interaction_channel = channel_10\<rparr>"

definition from_channel_11 :: Interaction where
  "from_channel_11 = \<lparr>interaction_guild = guild_1, interaction_channel = channel_11\<rparr>"

definition from_channel_20 :: Interaction where
  "from_channel_20 = \<lparr>interaction_guild = guild_2, interaction_channel = channel_20\<rparr>"

text \<open>
  Collaborators that all answer: Survival has one player, Alice; every other address
  refuses the connection; both guilds, channels and messages can be fetched.
\<close>

definition env_up :: Env where
  "env_up =
     \<lparr>status = (\<lambda>a. if a = ''1.2.3.4:25565'' then Inr \<lparr>online = 1, sample = Some [''Alice'']\<rparr>
                      else Inl (StatusQueryError ''ConnectionRefused'')),
      send = (\<lambda>c s. Inr 300),
      edit = (\<lambda>m s. None),
      get_guild = (\<lambda>i. if i = 1 then Some guild_1 else if i = 2 then Some guild_2 else None),
      get_channel = (\<lambda>g i. if i = 10 then Some channel_10 else if i = 20 then Some channel_20 else None),
      fetch_message = (\<lambda>c i. if i = 100 then Inr message_100 else if i = 200 then Inr message_200
                              else Inl (DiscordError ''404 Not Found'')),
      user = ''MCServerStatus#0001'',
      now = (\<lambda>k. \<lparr>hour = 9, minute = 5, second = k\<rparr>)\<rparr>"

text \<open>The same, with nobody on Survival.\<close>

definition env_empty_server :: Env where
  "env_empty_server = env_up\<lparr>status := (\<lambda>a. Inr \<lparr>online = 0, sample = Some []\<rparr>)\<rparr>"

text \<open>The same, with one player on Survival and no sample in the answer.\<close>

definition env_no_sample :: Env where
  "env_no_sample = env_up\<lparr>status := (\<lambda>a. Inr \<lparr>online = 1, sample = None\<rparr>)\<rparr>"

text \<open>Every status query fails and the Survival message can no longer be edited.\<close>

definition env_message_gone :: Env where
  "env_message_gone =
     env_up\<lparr>status := (\<lambda>a. Inl (StatusQueryError ''ConnectionRefused'')),
            edit := (\<lambda>m s. if message_id m = 100 then Some (DiscordError ''404 Not Found'') else None)\<rparr>"

text \<open>The guild of the Creative message is no longer visible.\<close>

definition env_guild_2_gone :: Env where
  "env_guild_2_gone = env_up\<lparr>get_guild := (\<lambda>i. if i = 1 then Some guild_1 else None)\<rparr>"

text \<open>
  Every server answers with no player; a message sent to channel 10 gets the id 100,
  one sent to another channel the id 200.
\<close>

definition env_adding :: Env where
  "env_adding =
     env_up\<lparr>status := (\<lambda>a. Inr \<lparr>online = 0, sample = Some []\<rparr>),
            send := (\<lambda>c s. Inr (if channel_id c = 10 then 100 else 200))\<rparr>"

definition world_of :: "MCServer list \<Rightarrow> Item list option \<Rightarrow> World" where
  "world_of ss f = \<lparr>servers = ss, info_json = f, message_content = Map.empty, printed = []\<rparr>"

text \<open>A record with the address of Survival under another name.\<close>

definition hardcore_item :: Item where
  "hardcore_item = \<lparr>item_name = ''Hardcore'', item_address = ''1.2.3.4:25565'',
                    item_guild_id = 1, item_channel_id = 10, item_message_id = 100\<rparr>"

text \<open>Two add calls with the same address.\<close>

definition two_adds :: "(Env \<times> Interaction \<times> string \<times> string \<times> int) list" where
  "two_adds = [(env_up, from_channel_10, ''1.2.3.4'', ''Survival'', 25565),
               (env_up, from_channel_11, ''1.2.3.4'', ''Again'', 25565)]"

text \<open>A start on a snapshot of Creative and Survival, followed by one tick.\<close>

definition start_and_tick :: "event list" where
  "start_and_tick = [Ready env_up, Tick env_up]"

text \<open>Survival and Creative are added, each from its channel, with no file at the start.\<close>

definition two_added :: "event list" where
  "two_added = [Add env_adding from_channel_10 ''1.2.3.4'' ''Survival'' 25565,
                Add env_adding from_channel_20 ''5.6.7.8'' ''Creative'' 25565]"

definition two_records :: World where
  "two_records = \<lparr>servers = [], info_json = Some [creative_item, survival_item],
                  message_content = Map.empty, printed = []\<rparr>"

section \<open>Properties\<close>

lemmas example_defs =
  guild_1_def guild_2_def channel_10_def channel_11_def channel_20_def message_100_def
  message_200_def survival_def creative_def survival_item_def creative_item_def
  hardcore_item_def from_channel_10_def from_channel_11_def from_channel_20_def env_up_def
  env_empty_server_def env_no_sample_def env_message_gone_def env_guild_2_gone_def env_adding_def
  lookup_example_def world_of_def two_records_def start_and_tick_def two_added_def
  MCServer_init_def MCServer_fields_def message_guild_def

lemmas str_defs = str_int_def str_nat.simps digit_char_def nl_def

subsection \<open>Rendering\<close>

lemma add_players_concat: "add_players c ps = c @ concat (map (\<lambda>p. p @ nl) ps)"
  by (induction ps arbitrary: c) simp_all

lemma str_int_0: "str_int 0 = ''0''"
  by (simp add: str_int_def str_nat.simps digit_char_def)

lemma str_int_1: "str_int 1 = ''1''"
  by (simp add: str_int_def str_nat.simps digit_char_def)

text \<open>
  A failed status query, with a message that accepts the offline text: the message is
  edited and one line is printed.
\<close>

lemma get_status_offline:
  assumes "status env (address s) = Inl e" and "message s = Some m"
    and "edit env m (name s @ '' is **offline**: '' @ describe e) = None"
  shows "get_status env s w =
      (None, log_line env (''Error looking up server '' @ name s @ '' ('' @ address s
                             @ '') status: '' @ describe e)
               (set_content m (name s @ '' is **offline**: '' @ describe e) w))"
  using assms by (simp add: get_status_def get_content_def handle_exception_def)

text \<open>
  Claim C1, as the code has it. The words \<open>online\<close> and \<open>offline\<close> are rendered in
  Markdown bold, \<open>**online**\<close> and \<open>**offline**\<close>. With no player the text is
  \<open>"<name> is **online** with 0 online players."\<close> and nothing follows; with one player
  the header is \<open>Player:\<close>, with two or more it is \<open>Players:\<close>; when the status carries a
  sample, every name of the sample follows the header, one per line, in the order of
  the sample. A failed query whose offline text the message accepts leaves the message
  with \<open>"<name> is **offline**: <description>"\<close>.
\<close>

theorem rendered_status_text:
  "(status env (address s) = Inr \<lparr>online = 0, sample = smp\<rparr> \<longrightarrow>
      get_content env s = Inr (name s @ '' is **online** with 0 online players.''))
   \<and> (status env (address s) = Inr \<lparr>online = 1, sample = Some ps\<rparr> \<longrightarrow>
      get_content env s =
        Inr (name s @ '' is **online** with 1 online player.'' @ nl @ nl @ ''Player:'' @ nl
             @ concat (map (\<lambda>p. p @ nl) ps)))
   \<and> (2 \<le> k \<and> status env (address s) = Inr \<lparr>online = k, sample = Some ps\<rparr> \<longrightarrow>
      get_content env s =
        Inr (name s @ '' is **online** with '' @ str_int k @ '' online players.'' @ nl @ nl
             @ ''Players:'' @ nl @ concat (map (\<lambda>p. p @ nl) ps)))
   \<and> (status env (address s) = Inl e \<and> message s = Some m
        \<and> edit env m (name s @ '' is **offline**: '' @ describe e) = None \<longrightarrow>
      message_content (snd (get_status env s w)) (message_id m)
        = Some (name s @ '' is **offline**: '' @ describe e))"
proof (intro conjI impI)
  assume "status env (address s) = Inr \<lparr>online = 0, sample = smp\<rparr>"
  then show "get_content env s = Inr (name s @ '' is **online** with 0 online players.'')"
    by (simp add: get_content_def str_int_0)
next
  assume "status env (address s) = Inr \<lparr>online = 1, sample = Some ps\<rparr>"
  then show "get_content env s =
        Inr (name s @ '' is **online** with 1 online player.'' @ nl @ nl @ ''Player:'' @ nl
             @ concat (map (\<lambda>p. p @ nl) ps))"
    by (simp add: get_content_def str_int_1 add_players_concat)
next
  assume "2 \<le> k \<and> status env (address s) = Inr \<lparr>online = k, sample = Some ps\<rparr>"
  then show "get_content env s =
        Inr (name s @ '' is **online** with '' @ str_int k @ '' online players.'' @ nl @ nl
             @ ''Players:'' @ nl @ concat (map (\<lambda>p. p @ nl) ps))"
    by (simp add: get_content_def add_players_concat)
next
  assume "status env (address s) = Inl e \<and> message s = Some m
        \<and> edit env m (name s @ '' is **offline**: '' @ describe e) = None"
  then show "message_content (snd (get_status env s w)) (message_id m)
        = Some (name s @ '' is **offline**: '' @ describe e)"
    by (simp add: get_status_offline log_line_def set_content_def)
qed

text \<open>The four cases of C1 on Survival and Creative.\<close>

theorem rendered_status_text_witness:
  "get_content env_empty_server survival = Inr ''Survival is **online** with 0 online players.''
   \<and> get_content env_up survival
       = Inr (''Survival is **online** with 1 online player.'' @ nl @ nl @ ''Player:'' @ nl
              @ ''Alice'' @ nl)
   \<and> get_content (env_up\<lparr>status := (\<lambda>a. Inr \<lparr>online = 2, sample = Some [''A'', ''B'']\<rparr>)\<rparr>) survival
       = Inr (''Survival is **online** with 2 online players.'' @ nl @ nl @ ''Players:'' @ nl
              @ ''A'' @ nl @ ''B'' @ nl)
   \<and> message_content (snd (get_status env_up creative (world_of [creative] None))) 200
       = Some ''Creative is **offline**: ConnectionRefused''"
proof -
  have a: "status env_empty_server (address survival) = Inr \<lparr>online = 0, sample = Some []\<rparr>"
    by (simp add: example_defs)
  have b: "status env_up (address survival) = Inr \<lparr>online = 1, sample = Some [''Alice'']\<rparr>"
    by (simp add: example_defs)
  have c: "(2::int) \<le> 2 \<and> status (env_up\<lparr>status := (\<lambda>a. Inr \<lparr>online = 2, sample = Some [''A'', ''B'']\<rparr>)\<rparr>)
             (address survival) = Inr \<lparr>online = 2, sample = Some [''A'', ''B'']\<rparr>"
    by simp
  have d: "status env_up (address creative) = Inl (StatusQueryError ''ConnectionRefused'')
           \<and> message creative = Some message_200
           \<and> edit env_up message_200 (name creative @ '' is **offline**: ''
                 @ describe (StatusQueryError ''ConnectionRefused'')) = None"
    by (simp add: example_defs)
  show ?thesis
    using rendered_status_text [where env = env_empty_server and s = survival and smp = "Some []"] a
          rendered_status_text [where env = env_up and s = survival and ps = "[''Alice'']"] b
          rendered_status_text [where env = "env_up\<lparr>status := (\<lambda>a. Inr \<lparr>online = 2, sample = Some [''A'', ''B'']\<rparr>)\<rparr>"
            and s = survival and k = 2 and ps = "[''A'', ''B'']"] c
          rendered_status_text [where env = env_up and s = creative
            and e = "StatusQueryError ''ConnectionRefused''" and m = message_200
            and w = "world_of [creative] None"] d
    by (simp add: example_defs str_defs)
qed

text \<open>
  The formats of the specification have no bold markers, so already the text for an
  empty server differs from them; and a status with one player and no sample is not
  rendered at all: iterating the missing sample raises.
\<close>

theorem rendered_status_text_counterexample:
  "get_content env_empty_server survival \<noteq> Inr (spec_render_online (name survival) 0 [])
   \<and> get_content env_no_sample survival = Inl NoneNotIterable"
  by (simp add: get_content_def spec_render_online_def example_defs str_defs)

subsection \<open>Removal\<close>

lemma add_addresses_concat: "add_addresses r ss = r @ concat (map (\<lambda>s. address s @ nl) ss)"
  by (induction ss arbitrary: r) simp_all

lemma find_removable_no_match:
  assumes "\<forall>s\<in>set ss. message s \<noteq> None"
    and "\<forall>s\<in>set ss. \<not> (sublist ip (address s) \<and> in_guild (guild_id (interaction_guild i)) s)"
  shows "find_removable i ip ss = Inr None"
  using assms by (induction ss) (auto simp: in_guild_def split: option.splits)

lemma find_removable_first:
  assumes "\<forall>t\<in>set pre. message t \<noteq> None"
    and "\<forall>t\<in>set pre. \<not> (sublist ip (address t) \<and> in_guild (guild_id (interaction_guild i)) t)"
    and "sublist ip (address s)" and "in_guild (guild_id (interaction_guild i)) s"
  shows "find_removable i ip (pre @ s # post) = Inr (Some s)"
  using assms by (induction pre) (auto simp: in_guild_def split: option.splits)

lemma find_removable_found:
  "find_removable i ip ss = Inr (Some s) \<Longrightarrow>
     s \<in> set ss \<and> sublist ip (address s) \<and> in_guild (guild_id (interaction_guild i)) s"
  by (induction ss) (auto simp: in_guild_def split: option.splits if_splits)

lemma filter_remove1_other: "\<not> P s \<Longrightarrow> filter P (remove1 s xs) = filter P xs"
  by (induction xs) auto

lemma remove1_first: "s \<notin> set pre \<Longrightarrow> remove1 s (pre @ s # post) = pre @ post"
  by (induction pre) auto

lemma removeserver_keeps_file: "info_json (snd (removeserver_command i ip w)) = info_json w"
  by (simp add: removeserver_command_def split: sum.splits option.splits)

text \<open>
  Claim C5, as the code has it. The loop compares guild ids only: a remove issued from a
  guild leaves every target whose message is in another guild in the registry, in its
  place, whatever the address fragment. The channel of the caller is not looked at.
\<close>

theorem remove_leaves_other_guilds:
  "filter (\<lambda>s. \<not> in_guild (guild_id (interaction_guild i)) s) (servers (snd (removeserver_command i ip w)))
   = filter (\<lambda>s. \<not> in_guild (guild_id (interaction_guild i)) s) (servers w)"
proof (cases "find_removable i ip (servers w)")
  case (Inl e)
  then show ?thesis by (simp add: removeserver_command_def)
next
  case (Inr r)
  show ?thesis
  proof (cases r)
    case None
    with Inr show ?thesis by (simp add: removeserver_command_def)
  next
    case (Some s)
    with Inr have "in_guild (guild_id (interaction_guild i)) s"
      using find_removable_found by blast
    then have "filter (\<lambda>s. \<not> in_guild (guild_id (interaction_guild i)) s) (remove1 s (servers w))
               = filter (\<lambda>s. \<not> in_guild (guild_id (interaction_guild i)) s) (servers w)"
      by (intro filter_remove1_other) simp
    with Inr Some show ?thesis by (simp add: removeserver_command_def)
  qed
qed

text \<open>A remove from guild 1 with the address of Creative, which is tracked in guild 2.\<close>

theorem remove_leaves_other_guilds_witness:
  "servers (snd (removeserver_command from_channel_10 ''5.6.7.8'' (world_of [survival, creative] None)))
   = [survival, creative]
   \<and> filter (\<lambda>s. \<not> in_guild 1 s) [survival, creative] = [creative]"
  using remove_leaves_other_guilds [of from_channel_10 "''5.6.7.8''" "world_of [survival, creative] None"]
  by (simp add: removeserver_command_def in_guild_def example_defs sublist_code(3))

text \<open>
  With the scope of the specification, a guild id and a channel id, a caller in channel
  11 is in another scope than Survival, whose message is in channel 10 of the same guild;
  the remove goes through all the same.
\<close>

theorem remove_scope_counterexample:
  "spec_scope_of_target survival \<noteq> Some (spec_scope_of_caller from_channel_11)
   \<and> removeserver_command from_channel_11 ''1.2.3.4'' (world_of [survival] None)
       = (Inr \<lparr>content = ''Removed server!'', embed = None\<rparr>, world_of [] None)"
  by (simp add: removeserver_command_def spec_scope_of_target_def spec_scope_of_caller_def
        example_defs sublist_code(3))

text \<open>A remove without a match answers with the whole registry, or that it is empty.\<close>

lemma removeserver_no_match:
  assumes "\<forall>s\<in>set (servers w). message s \<noteq> None"
    and "\<forall>s\<in>set (servers w). \<not> (sublist ip (address s) \<and> in_guild (guild_id (interaction_guild i)) s)"
  shows "removeserver_command i ip w =
           (Inr \<lparr>content =
                   (if servers w = [] then ''There are no servers added.''
                    else ''Did not find server.'' @ nl @ nl @ ''Existing Servers:'' @ nl
                         @ concat (map (\<lambda>s. address s @ nl) (servers w))),
                 embed = None\<rparr>, w)"
  using find_removable_no_match [OF assms]
  by (simp add: removeserver_command_def add_addresses_concat)

text \<open>The empty fragment stops the loop at the first server of the caller's guild.\<close>

lemma removeserver_empty_fragment:
  assumes "\<forall>t\<in>set (servers w). message t \<noteq> None"
    and "\<exists>s\<in>set (servers w). in_guild (guild_id (interaction_guild i)) s"
  shows "\<exists>pre s post.
           servers w = pre @ s # post
           \<and> (\<forall>t\<in>set pre. \<not> in_guild (guild_id (interaction_guild i)) t)
           \<and> in_guild (guild_id (interaction_guild i)) s
           \<and> removeserver_command i '''' w
               = (Inr \<lparr>content = ''Removed server!'', embed = None\<rparr>, w\<lparr>servers := pre @ post\<rparr>)"
proof -
  from assms(2) obtain pre s post where
    split: "servers w = pre @ s # post"
    and s: "in_guild (guild_id (interaction_guild i)) s"
    and pre: "\<forall>t\<in>set pre. \<not> in_guild (guild_id (interaction_guild i)) t"
    using split_list_first_prop [of "servers w" "in_guild (guild_id (interaction_guild i))"]
    by blast
  from assms(1) split have msgs: "\<forall>t\<in>set pre. message t \<noteq> None" by simp
  from pre have nomatch:
    "\<forall>t\<in>set pre. \<not> (sublist [] (address t) \<and> in_guild (guild_id (interaction_guild i)) t)"
    by simp
  have found: "find_removable i [] (servers w) = Inr (Some s)"
    unfolding split using msgs nomatch _ s by (rule find_removable_first) simp
  from pre s have "s \<notin> set pre" by blast
  then have "remove1 s (servers w) = pre @ post"
    unfolding split by (rule remove1_first)
  with found have "removeserver_command i [] w
      = (Inr \<lparr>content = ''Removed server!'', embed = None\<rparr>, w\<lparr>servers := pre @ post\<rparr>)"
    by (simp add: removeserver_command_def)
  with split pre s show ?thesis by blast
qed

text \<open>
  Claim C2 at a concrete state. The snapshot written for a registry that holds Survival
  has the record of Survival. A remove of Survival from its guild succeeds and leaves
  \<open>info.json\<close> as it was, still with that record, where a save of the registry after the
  removal would write the empty list; the next start recovers the removed server.
\<close>

theorem remove_does_not_save:
  "write_json_file env_up (world_of [survival] None)
     = (None, \<lparr>servers = [survival], info_json = Some [survival_item],
               message_content = Map.empty,
               printed = [(''09:05:00'', ''Successfully wrote info.json'')]\<rparr>)
   \<and> removeserver_command from_channel_10 ''1.2.3.4'' (world_of [survival] (Some [survival_item]))
       = (Inr \<lparr>content = ''Removed server!'', embed = None\<rparr>, world_of [] (Some [survival_item]))
   \<and> info_json (snd (write_json_file env_up (world_of [] (Some [survival_item])))) = Some []
   \<and> servers (on_ready lookup_example env_up (world_of [] (Some [survival_item]))) = [survival]"
  by (simp add: write_json_file_def server_dict_def removeserver_command_def on_ready_def
        read_json_file_def load_item_def rebuild_def resolve_def log_line_def get_log_time_def two_digits_def
        example_defs sublist_code(3) str_defs)

subsection \<open>The poll tick\<close>

lemma poll_loop_append:
  "poll_loop env (xs @ ys) w =
     (case poll_loop env xs w of
        (Some e, w') \<Rightarrow> (Some e, w')
      | (None, w') \<Rightarrow> poll_loop env ys w')"
  by (induction xs arbitrary: w) (auto split: prod.splits option.splits)

text \<open>With a messaging collaborator that accepts every edit, no tick is cut short.\<close>

lemma get_status_accepted:
  assumes "message s \<noteq> None" and "\<forall>m c. edit env m c = None"
  shows "fst (get_status env s w) = None"
  using assms
  by (auto simp: get_status_def handle_exception_def Let_def split: sum.splits option.splits)

lemma poll_loop_accepted:
  assumes "\<forall>s\<in>set ss. message s \<noteq> None" and "\<forall>m c. edit env m c = None"
  shows "fst (poll_loop env ss w) = None"
  using assms
proof (induction ss arbitrary: w)
  case Nil
  then show ?case by simp
next
  case (Cons s ss)
  then have "fst (get_status env s w) = None"
    by (intro get_status_accepted) simp_all
  then obtain w' where "get_status env s w = (None, w')"
    by (cases "get_status env s w") simp
  with Cons show ?case by simp
qed

text \<open>A tick changes neither the registry nor the file.\<close>

lemma get_status_keeps:
  "servers (snd (get_status env s w)) = servers w
   \<and> info_json (snd (get_status env s w)) = info_json w"
  by (auto simp: get_status_def handle_exception_def set_content_def log_line_def Let_def
        split: sum.splits option.splits)

lemma poll_loop_keeps:
  "servers (snd (poll_loop env ss w)) = servers w
   \<and> info_json (snd (poll_loop env ss w)) = info_json w"
proof (induction ss arbitrary: w)
  case Nil
  then show ?case by simp
next
  case (Cons s ss)
  show ?case
  proof (cases "get_status env s w")
    case (Pair r w')
    with get_status_keeps [of env s w]
    have "servers w' = servers w" "info_json w' = info_json w" by simp_all
    with Pair Cons [of w'] show ?thesis by (cases r) simp_all
  qed
qed

lemma poll_servers_keeps_registry: "servers (snd (poll_servers env w)) = servers w"
  by (simp add: poll_servers_def poll_loop_keeps)

lemma poll_servers_keeps_file: "info_json (snd (poll_servers env w)) = info_json w"
  by (simp add: poll_servers_def poll_loop_keeps)

text \<open>
  When the message of a target whose query failed accepts the offline text, the tick
  goes on with the targets that follow.
\<close>

lemma poll_goes_on:
  assumes "servers w = pre @ s # post"
    and "poll_loop env pre w = (None, w1)"
    and "status env (address s) = Inl e"
    and "message s = Some m"
    and "edit env m (name s @ '' is **offline**: '' @ describe e) = None"
  shows "poll_servers env w =
           poll_loop env post
             (log_line env (''Error looking up server '' @ name s @ '' ('' @ address s
                            @ '') status: '' @ describe e)
                (set_content m (name s @ '' is **offline**: '' @ describe e) w1))"
proof -
  have "poll_servers env w = poll_loop env (pre @ s # post) w"
    by (simp add: poll_servers_def assms(1))
  also have "\<dots> = poll_loop env (s # post) w1"
    by (simp add: poll_loop_append assms(2))
  finally show ?thesis
    by (simp add: get_status_offline [OF assms(3,4,5)])
qed

text \<open>
  Claim C3 at a concrete tick. The registry holds Survival and then Creative; every
  status query is refused and the message of Survival has been deleted, so that it
  cannot be edited. The failure of Survival's query is caught in \<open>get_status\<close>, but the
  edit in \<open>handle_exception\<close> raises inside that \<open>except\<close> block: the exception leaves
  \<open>get_status\<close> and ends the loop of \<open>poll_servers\<close>. Creative is not processed; its
  message is not edited and nothing is printed. With the same refused queries and a
  message of Survival that can be edited, the same tick reaches Creative.
\<close>

theorem tick_ended_by_failed_edit:
  "status env_message_gone (address survival) = Inl (StatusQueryError ''ConnectionRefused'')
   \<and> poll_servers env_message_gone (world_of [survival, creative] None)
       = (Some (DiscordError ''404 Not Found''), world_of [survival, creative] None)
   \<and> message_content (world_of [survival, creative] None) (message_id message_200) = None
   \<and> message_content
        (snd (poll_servers (env_message_gone\<lparr>edit := (\<lambda>m s. None)\<rparr>)
                (world_of [survival, creative] None))) (message_id message_200)
       = Some ''Creative is **offline**: ConnectionRefused''"
  by (simp add: poll_servers_def get_status_def get_content_def handle_exception_def
        set_content_def log_line_def example_defs)

subsection \<open>Adding\<close>

lemma find_address_None: "find_address a ss = None \<longleftrightarrow> a \<notin> address ` set ss"
  by (induction ss) auto

lemma find_address_distinct:
  "distinct (map address ss) \<Longrightarrow> s \<in> set ss \<Longrightarrow> find_address (address s) ss = Some s"
  by (induction ss) (auto simp: rev_image_eqI)

lemma MCServer_init_new:
  assumes "MCServer_init lk nm a None = Inr s0"
  shows "message s0 = None \<and> name s0 = nm \<and> address s0 = a \<and> lk a = None"
  using assms by (auto simp: MCServer_init_def MCServer_fields_def split: option.splits)

lemma make_message_new:
  assumes "message s0 = None" and "make_message env s0 ch w = (Inr s, w1)"
  shows "complete s \<and> name s = name s0 \<and> address s = address s0 \<and> servers w1 = servers w
         \<and> info_json w1 = info_json w"
  using assms
  by (auto simp: make_message_def handle_exception_def complete_def set_content_def Let_def
        split: sum.splits)

lemma make_message_failed:
  "message s0 = None \<Longrightarrow> make_message env s0 ch w = (Inl e, w1) \<Longrightarrow> w1 = w"
  by (auto simp: make_message_def handle_exception_def Let_def split: sum.splits)

lemma write_json_file_servers: "servers (snd (write_json_file env w)) = servers w"
  by (simp add: write_json_file_def log_line_def split: sum.splits)

lemma server_dicts_complete:
  "\<forall>s\<in>set ss. complete s \<Longrightarrow> \<exists>ds. server_dicts ss = Inr ds \<and> map item_key ds = map server_key ss"
  by (induction ss)
     (auto simp: server_dict_def complete_def item_key_def server_key_def split: option.splits)

lemma server_dicts_fields:
  "server_dicts ss = Inr ds \<Longrightarrow>
     map item_key ds = map server_key ss \<and> map item_address ds = map address ss"
  by (induction ss arbitrary: ds)
     (auto simp: server_dict_def item_key_def server_key_def split: option.splits sum.splits)

text \<open>
  What \<open>addserver_command\<close> does to the registry and to the file: nothing, or one new
  server, complete and with an address the lookup accepted, and then at most a save of
  the new registry.
\<close>

lemma addserver_effect:
  "(servers (snd (addserver_command lk env i ip nm port w)) = servers w
    \<and> info_json (snd (addserver_command lk env i ip nm port w)) = info_json w)
   \<or> (\<exists>s. servers (snd (addserver_command lk env i ip nm port w)) = servers w @ [s]
          \<and> complete s \<and> parsed lk s \<and> name s = nm \<and> address s = ip @ '':'' @ str_int port
          \<and> address s \<notin> address ` set (servers w)
          \<and> (info_json (snd (addserver_command lk env i ip nm port w)) = info_json w
              \<or> (\<exists>ds. server_dicts (servers w @ [s]) = Inr ds
                     \<and> info_json (snd (addserver_command lk env i ip nm port w)) = Some ds)))"
proof (cases "find_address (ip @ '':'' @ str_int port) (servers w)")
  case (Some s)
  then show ?thesis
    by (simp add: addserver_command_def split: sum.splits)
next
  case None
  show ?thesis
  proof (cases "MCServer_init lk nm (ip @ '':'' @ str_int port) None")
    case (Inl e)
    with None show ?thesis by (simp add: addserver_command_def)
  next
    case s0: (Inr s0)
    note init = MCServer_init_new [OF s0]
    show ?thesis
    proof (cases "make_message env s0 (interaction_channel i) w")
      case (Pair r w1)
      show ?thesis
      proof (cases r)
        case (Inl e)
        with Pair init have "w1 = w" using make_message_failed by blast
        with None s0 Pair Inl show ?thesis by (simp add: addserver_command_def)
      next
        case (Inr s)
        with Pair init have s: "complete s" "name s = nm" "address s = ip @ '':'' @ str_int port"
          "servers w1 = servers w" "info_json w1 = info_json w"
          using make_message_new [of s0 env "interaction_channel i" w s w1] by simp_all
        from init s(3) have p: "parsed lk s" by (simp add: parsed_def)
        from None have fresh: "address s \<notin> address ` set (servers w)"
          by (simp add: find_address_None s)
        show ?thesis
        proof (cases "server_dicts (servers w @ [s])")
          case e: (Inl e)
          with None s0 Pair Inr s have
            "servers (snd (addserver_command lk env i ip nm port w)) = servers w @ [s]"
            "info_json (snd (addserver_command lk env i ip nm port w)) = info_json w"
            by (simp_all add: addserver_command_def write_json_file_def)
          with s p fresh show ?thesis by blast
        next
          case ds: (Inr ds)
          with None s0 Pair Inr s have
            "servers (snd (addserver_command lk env i ip nm port w)) = servers w @ [s]"
            "info_json (snd (addserver_command lk env i ip nm port w)) = Some ds"
            by (simp_all add: addserver_command_def write_json_file_def log_line_def)
          with s p fresh ds show ?thesis by blast
        qed
      qed
    qed
  qed
qed

lemma addserver_registry:
  "servers (snd (addserver_command lk env i ip nm port w)) = servers w
   \<or> (\<exists>s. servers (snd (addserver_command lk env i ip nm port w)) = servers w @ [s]
          \<and> complete s \<and> parsed lk s \<and> name s = nm \<and> address s = ip @ '':'' @ str_int port
          \<and> address s \<notin> address ` set (servers w))"
  using addserver_effect [of lk env i ip nm port w] by blast

lemma addserver_keeps_distinct:
  assumes "distinct (map address (servers w))"
  shows "distinct (map address (servers (snd (addserver_command lk env i ip nm port w))))"
  using addserver_registry [of lk env i ip nm port w] assms by auto

lemma addserver_keeps_complete:
  assumes "\<forall>s\<in>set (servers w). complete s"
  shows "\<forall>s\<in>set (servers (snd (addserver_command lk env i ip nm port w))). complete s"
  using addserver_registry [of lk env i ip nm port w] assms by auto

lemma add_calls_invariant:
  assumes "distinct (map address (servers w))" and "\<forall>s\<in>set (servers w). complete s"
  shows "distinct (map address (servers (add_calls lk cs w)))
         \<and> (\<forall>s\<in>set (servers (add_calls lk cs w)). complete s)"
  using assms
proof (induction cs arbitrary: w)
  case Nil
  then show ?case by simp
next
  case (Cons c cs)
  obtain env i ip nm port where c: "c = (env, i, ip, nm, port)"
    by (cases c) auto
  show ?case
    unfolding c add_calls.simps
    by (rule Cons.IH) (use Cons.prems addserver_keeps_distinct addserver_keeps_complete in blast)+
qed

lemma addserver_duplicate:
  assumes "distinct (map address (servers w))" and "s \<in> set (servers w)"
    and "address s = ip @ '':'' @ str_int port"
    and "guild s = Some g" and "channel s = Some c" and "message s = Some m"
  shows "addserver_command lk env i ip nm port w =
           (Inr \<lparr>content = ''This server is already added!'',
                 embed = Some \<lparr>title = ''Status'',
                               description = ''[Go to Message](https://discord.com/channels/''
                                 @ str_int (guild_id g) @ ''/'' @ str_int (channel_id c) @ ''/''
                                 @ str_int (message_id m) @ '')'',
                               color = Blue\<rparr>\<rparr>, w)"
proof -
  have "find_address (ip @ '':'' @ str_int port) (servers w) = Some s"
    using find_address_distinct [OF assms(1,2)] assms(3) by simp
  then show ?thesis
    by (simp add: addserver_command_def message_link_def assms(4,5,6))
qed

text \<open>
  Claim C4. From a registry with one target per address (the empty registry is one),
  every sequence of add calls leads to a registry with one target per address; and in
  the registry so reached, an add whose address is that of a tracked target is answered
  with \<open>This server is already added!\<close> and a link to the message of that target, and
  leaves the registry, and everything else, as it was.
\<close>

theorem add_unique_address:
  assumes "distinct (map address (servers w0))" and "\<forall>s\<in>set (servers w0). complete s"
    and "w = add_calls lk cs w0"
  shows "distinct (map address (servers w))
         \<and> (\<forall>s\<in>set (servers w). address s = ip @ '':'' @ str_int port \<longrightarrow>
              (\<exists>g c m. guild s = Some g \<and> channel s = Some c \<and> message s = Some m
                 \<and> addserver_command lk env i ip nm port w =
                     (Inr \<lparr>content = ''This server is already added!'',
                           embed = Some \<lparr>title = ''Status'',
                                         description = ''[Go to Message](https://discord.com/channels/''
                                           @ str_int (guild_id g) @ ''/'' @ str_int (channel_id c)
                                           @ ''/'' @ str_int (message_id m) @ '')'',
                                         color = Blue\<rparr>\<rparr>, w)))"
proof -
  have inv: "distinct (map address (servers w))" "\<forall>s\<in>set (servers w). complete s"
    using add_calls_invariant [OF assms(1,2)] assms(3) by simp_all
  have "\<exists>g c m. guild s = Some g \<and> channel s = Some c \<and> message s = Some m
          \<and> addserver_command lk env i ip nm port w =
              (Inr \<lparr>content = ''This server is already added!'',
                    embed = Some \<lparr>title = ''Status'',
                                  description = ''[Go to Message](https://discord.com/channels/''
                                    @ str_int (guild_id g) @ ''/'' @ str_int (channel_id c)
                                    @ ''/'' @ str_int (message_id m) @ '')'',
                                  color = Blue\<rparr>\<rparr>, w)"
    if s: "s \<in> set (servers w)" and a: "address s = ip @ '':'' @ str_int port" for s
  proof -
    from inv(2) s have "complete s" by simp
    then obtain g c m where h: "guild s = Some g" "channel s = Some c" "message s = Some m"
      by (auto simp: complete_def)
    from addserver_duplicate [OF inv(1) s a h] h show ?thesis by blast
  qed
  with inv(1) show ?thesis by blast
qed

text \<open>
  Survival is added to the empty registry; the second call of the sequence, with the
  same address, adds nothing, and so does a further add of that address.
\<close>

theorem add_unique_address_witness:
  "servers (add_calls lookup_example two_adds (world_of [] None))
     = [\<lparr>name = ''Survival'', address = ''1.2.3.4:25565'', guild = Some guild_1,
         channel = Some channel_10,
         message = Some \<lparr>message_id = 300, message_channel = channel_10\<rparr>\<rparr>]
   \<and> addserver_command lookup_example env_up from_channel_11 ''1.2.3.4'' ''Again'' 25565
         (add_calls lookup_example two_adds (world_of [] None))
       = (Inr \<lparr>content = ''This server is already added!'',
               embed = Some \<lparr>title = ''Status'',
                             description = ''[Go to Message](https://discord.com/channels/1/10/300)'',
                             color = Blue\<rparr>\<rparr>,
          add_calls lookup_example two_adds (world_of [] None))"
proof -
  have a: "distinct (map address (servers (world_of [] None)))"
    by (simp add: world_of_def)
  have b: "\<forall>s\<in>set (servers (world_of [] None)). complete s"
    by (simp add: world_of_def)
  have c: "add_calls lookup_example two_adds (world_of [] None)
             = add_calls lookup_example two_adds (world_of [] None)"
    by simp
  have srv: "servers (add_calls lookup_example two_adds (world_of [] None))
     = [\<lparr>name = ''Survival'', address = ''1.2.3.4:25565'', guild = Some guild_1,
         channel = Some channel_10,
         message = Some \<lparr>message_id = 300, message_channel = channel_10\<rparr>\<rparr>]"
    by (simp add: two_adds_def addserver_command_def make_message_def get_content_def
          write_json_file_def server_dict_def message_link_def set_content_def log_line_def
          Let_def example_defs str_defs)
  show ?thesis
    using add_unique_address [OF a b c, of "''1.2.3.4''" 25565 env_up from_channel_11 "''Again''"]
    by (simp add: srv) (simp add: example_defs str_defs)
qed

subsection \<open>Saving\<close>

text \<open>
  An add that appends a server returns only after \<open>info.json\<close> holds the records of
  the new registry. (A remove never writes the file: \<open>removeserver_keeps_file\<close>.)
\<close>

lemma addserver_persists:
  assumes "find_address (ip @ '':'' @ str_int port) (servers w) = None"
    and "addserver_command lk env i ip nm port w = (Inr r, w')"
  shows "\<exists>ds. server_dicts (servers w') = Inr ds \<and> info_json w' = Some ds"
proof (cases "MCServer_init lk nm (ip @ '':'' @ str_int port) None")
  case (Inl e)
  with assms show ?thesis by (simp add: addserver_command_def)
next
  case s0: (Inr s0)
  show ?thesis
  proof (cases "make_message env s0 (interaction_channel i) w")
    case (Pair r1 w1)
    show ?thesis
    proof (cases r1)
      case (Inl e)
      with assms s0 Pair show ?thesis by (simp add: addserver_command_def)
    next
      case (Inr s)
      show ?thesis
      proof (cases "server_dicts (servers w1 @ [s])")
        case (Inl e)
        with assms s0 Pair Inr show ?thesis
          by (simp add: addserver_command_def write_json_file_def)
      next
        case ds: (Inr ds)
        with assms s0 Pair Inr have "w' = log_line env ''Successfully wrote info.json''
                                       (w1\<lparr>servers := servers w1 @ [s], info_json := Some ds\<rparr>)"
          by (simp add: addserver_command_def write_json_file_def)
        with ds show ?thesis by (simp add: log_line_def)
      qed
    qed
  qed
qed

subsection \<open>Loading\<close>

lemma server_key_recovered: "server_key (recovered env item) = item_key item"
  by (simp add: recovered_def MCServer_fields_def server_key_def item_key_def)

lemma address_recovered: "address (recovered env item) = item_address item"
  by (simp add: recovered_def MCServer_fields_def)

lemma complete_recovered: "resolves env item \<Longrightarrow> complete (recovered env item)"
  by (auto simp: recovered_def resolves_def MCServer_fields_def complete_def split: sum.splits)

text \<open>The \<open>try\<close> gives a server exactly for the records that resolve and whose address is accepted.\<close>

lemma rebuild_loads: "loads lk env item \<Longrightarrow> rebuild lk env item = Inr (recovered env item)"
  by (auto simp: loads_def resolves_def item_parsed_def rebuild_def recovered_def MCServer_init_def
        split: sum.splits)

lemma rebuild_fails: "\<not> loads lk env item \<Longrightarrow> \<exists>e. rebuild lk env item = Inl e"
  by (auto simp: loads_def resolves_def item_parsed_def rebuild_def MCServer_init_def
        split: sum.splits option.splits)

text \<open>The inner loop only prints; it finds the item when a server has its name and address.\<close>

lemma recognize_props:
  assumes "recognize env item ss (f, w) = (f', w')"
  shows "f' = (f \<or> item_key item \<in> server_key ` set ss)
         \<and> servers w' = servers w \<and> info_json w' = info_json w
         \<and> message_content w' = message_content w
         \<and> filter is_warning (printed w') = filter is_warning (printed w)"
  using assms
proof (induction ss arbitrary: f w)
  case Nil
  then show ?case by simp
next
  case (Cons s ss)
  show ?case
  proof (cases "name s = item_name item \<and> address s = item_address item")
    case True
    with Cons.prems have "recognize env item ss
        (True, log_line env (''Recognized server '' @ item_name item @ '' with message id ''
                             @ str_int (item_message_id item)) w) = (f', w')"
      by simp
    from Cons.IH [OF this] True show ?thesis
      by (simp add: log_line_def server_key_def item_key_def is_warning_def)
  next
    case False
    with Cons.prems have "recognize env item ss (f, w) = (f', w')" by simp
    from Cons.IH [OF this] False show ?thesis
      by (auto simp: server_key_def item_key_def)
  qed
qed

lemma load_item_known:
  assumes "item_key item \<in> server_key ` set (servers w)"
  shows "servers (load_item lk env item w) = servers w
         \<and> info_json (load_item lk env item w) = info_json w
         \<and> message_content (load_item lk env item w) = message_content w
         \<and> filter is_warning (printed (load_item lk env item w)) = filter is_warning (printed w)"
proof (cases "recognize env item (servers w) (False, w)")
  case (Pair f' w')
  from recognize_props [OF this] assms Pair show ?thesis
    by (simp add: load_item_def)
qed

lemma load_item_loaded:
  assumes "item_key item \<notin> server_key ` set (servers w)" and "loads lk env item"
  shows "servers (load_item lk env item w) = servers w @ [recovered env item]
         \<and> info_json (load_item lk env item w) = info_json w
         \<and> message_content (load_item lk env item w) = message_content w
         \<and> filter is_warning (printed (load_item lk env item w)) = filter is_warning (printed w)"
proof (cases "recognize env item (servers w) (False, w)")
  case (Pair f' w')
  with recognize_props [OF Pair] assms(1) rebuild_loads [OF assms(2)] show ?thesis
    by (simp add: load_item_def log_line_def is_warning_def)
qed

lemma load_item_dropped:
  assumes "item_key item \<notin> server_key ` set (servers w)" and "\<not> loads lk env item"
  shows "servers (load_item lk env item w) = servers w
         \<and> info_json (load_item lk env item w) = info_json w
         \<and> message_content (load_item lk env item w) = message_content w
         \<and> length (filter is_warning (printed (load_item lk env item w)))
             = Suc (length (filter is_warning (printed w)))"
proof (cases "recognize env item (servers w) (False, w)")
  case (Pair f' w')
  from rebuild_fails [OF assms(2)] obtain e where "rebuild lk env item = Inl e" by blast
  with recognize_props [OF Pair] assms(1) Pair show ?thesis
    by (simp add: load_item_def log_line_def is_warning_def)
qed

text \<open>
  Loading records with pairwise distinct keys, none of them in the registry: the records
  that load are appended in order, and each of the others adds one warning.
\<close>

lemma load_items_fresh:
  assumes "distinct (map item_key items)"
    and "item_key ` set items \<inter> server_key ` set (servers w) = {}"
  shows "servers (load_items lk env items w)
           = servers w @ map (recovered env) (filter (loads lk env) items)
         \<and> info_json (load_items lk env items w) = info_json w
         \<and> message_content (load_items lk env items w) = message_content w
         \<and> length (filter is_warning (printed (load_items lk env items w)))
             = length (filter is_warning (printed w))
               + length (filter (\<lambda>d. \<not> loads lk env d) items)"
  using assms
proof (induction items arbitrary: w)
  case Nil
  then show ?case by simp
next
  case (Cons item items)
  from Cons.prems have fresh: "item_key item \<notin> server_key ` set (servers w)" by auto
  from Cons.prems have d: "distinct (map item_key items)" and
    notin: "item_key item \<notin> item_key ` set items" by auto
  show ?case
  proof (cases "loads lk env item")
    case True
    note li = load_item_loaded [OF fresh True]
    have "item_key ` set items \<inter> server_key ` set (servers (load_item lk env item w)) = {}"
      using Cons.prems(2) notin li by (auto simp: server_key_recovered)
    from Cons.IH [OF d this] li True show ?thesis by simp
  next
    case False
    note li = load_item_dropped [OF fresh False]
    have "item_key ` set items \<inter> server_key ` set (servers (load_item lk env item w)) = {}"
      using Cons.prems(2) li by auto
    from Cons.IH [OF d this] li False show ?thesis by simp
  qed
qed

lemma load_item_extends:
  "\<exists>extra. servers (load_item lk env item w) = servers w @ extra
      \<and> (\<forall>x\<in>set extra. complete x \<and> parsed lk x \<and> server_key x = item_key item
                          \<and> server_key x \<notin> server_key ` set (servers w))
      \<and> length extra \<le> 1
      \<and> info_json (load_item lk env item w) = info_json w
      \<and> message_content (load_item lk env item w) = message_content w"
proof (cases "item_key item \<in> server_key ` set (servers w)")
  case True
  from load_item_known [OF this] show ?thesis by simp
next
  case False
  show ?thesis
  proof (cases "loads lk env item")
    case True
    from load_item_loaded [OF False True] False True show ?thesis
      by (simp add: server_key_recovered complete_recovered address_recovered loads_def
            parsed_def item_parsed_def)
  next
    case nr: False
    from load_item_dropped [OF False nr] show ?thesis by simp
  qed
qed

text \<open>Whatever the registry and the file, loading only appends, and never a key twice.\<close>

lemma load_items_extends:
  "\<exists>extra. servers (load_items lk env items w) = servers w @ extra
      \<and> (\<forall>x\<in>set extra. complete x \<and> parsed lk x
                          \<and> server_key x \<notin> server_key ` set (servers w))
      \<and> distinct (map server_key extra)
      \<and> info_json (load_items lk env items w) = info_json w
      \<and> message_content (load_items lk env items w) = message_content w"
proof (induction items arbitrary: w)
  case Nil
  then show ?case by simp
next
  case (Cons item items)
  obtain e1 where e1: "servers (load_item lk env item w) = servers w @ e1"
    "\<forall>x\<in>set e1. complete x \<and> parsed lk x \<and> server_key x \<notin> server_key ` set (servers w)"
    "length e1 \<le> 1"
    "info_json (load_item lk env item w) = info_json w"
    "message_content (load_item lk env item w) = message_content w"
    using load_item_extends [of lk env item w] by blast
  obtain e2 where e2: "servers (load_items lk env items (load_item lk env item w))
                         = servers (load_item lk env item w) @ e2"
    "\<forall>x\<in>set e2. complete x \<and> parsed lk x
        \<and> server_key x \<notin> server_key ` set (servers (load_item lk env item w))"
    "distinct (map server_key e2)"
    "info_json (load_items lk env items (load_item lk env item w))
       = info_json (load_item lk env item w)"
    "message_content (load_items lk env items (load_item lk env item w))
       = message_content (load_item lk env item w)"
    using Cons.IH [of "load_item lk env item w"] by blast
  have d1: "distinct (map server_key e1)"
    using e1(3) by (cases e1) auto
  have "servers (load_items lk env (item # items) w) = servers w @ (e1 @ e2)"
    by (simp add: e1(1) e2(1))
  moreover have "\<forall>x\<in>set (e1 @ e2). complete x \<and> parsed lk x
                    \<and> server_key x \<notin> server_key ` set (servers w)"
    using e1(1,2) e2(2) by auto
  moreover have "distinct (map server_key (e1 @ e2))"
    using d1 e2(2,3) e1(1) by auto
  moreover have "info_json (load_items lk env (item # items) w) = info_json w"
    by (simp add: e1(4) e2(4))
  moreover have "message_content (load_items lk env (item # items) w) = message_content w"
    by (simp add: e1(5) e2(5))
  ultimately show ?case by blast
qed

lemma load_items_keys_grow:
  "server_key ` set (servers w) \<subseteq> server_key ` set (servers (load_items lk env items w))"
  using load_items_extends [of lk env items w] by auto

text \<open>After a load, every record of the file is in the registry or does not load.\<close>

lemma load_items_settled:
  "\<forall>d\<in>set items. item_key d \<in> server_key ` set (servers (load_items lk env items w))
                   \<or> \<not> loads lk env d"
proof (induction items arbitrary: w)
  case Nil
  then show ?case by simp
next
  case (Cons item items)
  have "item_key item \<in> server_key ` set (servers (load_item lk env item w))
        \<or> \<not> loads lk env item"
  proof (cases "item_key item \<in> server_key ` set (servers w)")
    case True
    with load_item_known [OF True, of lk env] show ?thesis by simp
  next
    case False
    show ?thesis
    proof (cases "loads lk env item")
      case True
      from load_item_loaded [OF False True] show ?thesis
        by (simp add: server_key_recovered)
    next
      case nr: False
      then show ?thesis by simp
    qed
  qed
  then have "item_key item \<in> server_key ` set (servers (load_items lk env (item # items) w))
             \<or> \<not> loads lk env item"
    using load_items_keys_grow [of "load_item lk env item w" lk env items] by auto
  with Cons.IH [of "load_item lk env item w"] show ?case by simp
qed

lemma load_items_nothing_new:
  assumes "\<forall>d\<in>set items. item_key d \<in> server_key ` set (servers w) \<or> \<not> loads lk env d"
  shows "servers (load_items lk env items w) = servers w"
  using assms
proof (induction items arbitrary: w)
  case Nil
  then show ?case by simp
next
  case (Cons item items)
  have step: "servers (load_item lk env item w) = servers w"
  proof (cases "item_key item \<in> server_key ` set (servers w)")
    case True
    from load_item_known [OF this] show ?thesis by simp
  next
    case False
    with Cons.prems have "\<not> loads lk env item" by simp
    from load_item_dropped [OF False this] show ?thesis by simp
  qed
  with Cons.prems have "\<forall>d\<in>set items.
      item_key d \<in> server_key ` set (servers (load_item lk env item w)) \<or> \<not> loads lk env d"
    by simp
  from Cons.IH [OF this] step show ?case by simp
qed

lemma read_json_file_servers:
  "servers (read_json_file lk env w)
     = (case info_json w of
          None \<Rightarrow> servers w
        | Some items \<Rightarrow> servers (load_items lk env items (log_line env ''Reading info.json'' w)))"
  by (simp add: read_json_file_def log_line_def split: option.splits)

lemma read_json_file_info_json: "info_json (read_json_file lk env w) = info_json w"
proof (cases "info_json w")
  case None
  then show ?thesis by (simp add: read_json_file_def log_line_def)
next
  case (Some items)
  have "info_json (load_items lk env items (log_line env ''Reading info.json'' w))
          = info_json (log_line env ''Reading info.json'' w)"
    using load_items_extends [of lk env items "log_line env ''Reading info.json'' w"] by blast
  with Some show ?thesis by (simp add: read_json_file_def log_line_def)
qed

text \<open>A load into the empty registry, from a file whose records have pairwise distinct keys.\<close>

lemma read_json_file_fresh:
  assumes "servers w = []" and "info_json w = Some items" and "distinct (map item_key items)"
  shows "servers (read_json_file lk env w) = map (recovered env) (filter (loads lk env) items)
         \<and> length (filter is_warning (printed (read_json_file lk env w)))
             = length (filter is_warning (printed w))
               + (length items - length (filter (loads lk env) items))
         \<and> message_content (read_json_file lk env w) = message_content w"
proof -
  let ?w = "log_line env ''Reading info.json'' w"
  have fresh: "item_key ` set items \<inter> server_key ` set (servers ?w) = {}"
    by (simp add: log_line_def assms(1))
  note li = load_items_fresh [OF assms(3) fresh, of lk env]
  have count: "length (filter (\<lambda>d. \<not> loads lk env d) items)
                 = length items - length (filter (loads lk env) items)"
    using sum_length_filter_compl [of "loads lk env" items] by simp
  have w: "read_json_file lk env w
             = log_line env ''Successfully loaded info.json'' (load_items lk env items ?w)"
    by (simp add: read_json_file_def assms(2))
  have "servers (read_json_file lk env w) = map (recovered env) (filter (loads lk env) items)"
    using li by (simp add: w log_line_def assms(1))
  moreover have "length (filter is_warning (printed (read_json_file lk env w)))
             = length (filter is_warning (printed w))
               + (length items - length (filter (loads lk env) items))"
    using li count by (simp add: w log_line_def is_warning_def)
  moreover have "message_content (read_json_file lk env w) = message_content w"
    using li by (simp add: w log_line_def)
  ultimately show ?thesis by simp
qed

subsection \<open>The registries and the snapshots the bot reaches\<close>

text \<open>Every event keeps the invariant of the registry.\<close>

lemma registry_inv_append:
  assumes "registry_inv lk w" and "servers w' = servers w @ extra"
    and "\<forall>x\<in>set extra. complete x \<and> parsed lk x \<and> server_key x \<notin> server_key ` set (servers w)"
    and "distinct (map server_key extra)"
  shows "registry_inv lk w'"
  using assms by (auto simp: registry_inv_def list_all_iff)

lemma read_json_file_invariant:
  assumes "registry_inv lk w"
  shows "registry_inv lk (read_json_file lk env w)"
proof (cases "info_json w")
  case None
  with assms show ?thesis by (simp add: registry_inv_def read_json_file_servers)
next
  case (Some items)
  let ?w = "log_line env ''Reading info.json'' w"
  have inv: "registry_inv lk ?w"
    using assms by (simp add: registry_inv_def log_line_def)
  obtain extra where
    "servers (load_items lk env items ?w) = servers ?w @ extra"
    "\<forall>x\<in>set extra. complete x \<and> parsed lk x \<and> server_key x \<notin> server_key ` set (servers ?w)"
    "distinct (map server_key extra)"
    using load_items_extends [of lk env items ?w] by blast
  moreover have "servers (read_json_file lk env w) = servers (load_items lk env items ?w)"
    by (simp add: read_json_file_servers Some)
  ultimately show ?thesis
    using registry_inv_append [OF inv, of "read_json_file lk env w" extra] by simp
qed

lemma removeserver_invariant:
  assumes "registry_inv lk w"
  shows "registry_inv lk (snd (removeserver_command i ip w))"
proof -
  have "servers (snd (removeserver_command i ip w)) = servers w
        \<or> (\<exists>s. servers (snd (removeserver_command i ip w)) = remove1 s (servers w))"
    by (auto simp: removeserver_command_def split: sum.splits option.splits)
  moreover have "distinct (map server_key (remove1 s (servers w)))" for s
    using assms by (simp add: registry_inv_def distinct_map inj_on_def)
  moreover have "\<forall>t\<in>set (remove1 s (servers w)). complete t \<and> parsed lk t" for s
    using assms by (metis registry_inv_def list_all_iff notin_set_remove1)
  ultimately show ?thesis using assms by (auto simp: registry_inv_def list_all_iff)
qed

lemma addserver_invariant:
  assumes "registry_inv lk w"
  shows "registry_inv lk (snd (addserver_command lk env i ip nm port w))"
proof -
  have "address s \<notin> address ` set (servers w) \<Longrightarrow> server_key s \<notin> server_key ` set (servers w)" for s
    by (auto simp: server_key_def)
  with addserver_registry [of lk env i ip nm port w] assms show ?thesis
    by (auto simp: registry_inv_def list_all_iff)
qed

lemma on_ready_invariant:
  assumes "registry_inv lk w"
  shows "registry_inv lk (on_ready lk env w)"
  using assms read_json_file_invariant [OF assms, of env]
  by (simp add: on_ready_def log_line_def registry_inv_def)

lemma step_invariant:
  assumes "registry_inv lk w"
  shows "registry_inv lk (step lk e w)"
proof (cases e)
  case (Add env i ip nm port)
  with addserver_invariant [OF assms] show ?thesis by simp
next
  case (Remove i ip)
  with removeserver_invariant [OF assms] show ?thesis by simp
next
  case (Ready env)
  with on_ready_invariant [OF assms] show ?thesis by simp
next
  case (Tick env)
  with assms show ?thesis by (simp add: registry_inv_def poll_servers_keeps_registry)
next
  case Restart
  then show ?thesis by (simp add: registry_inv_def restarted_def)
qed

text \<open>Every event keeps the snapshot as the bot writes it.\<close>

lemma addserver_written:
  assumes "registry_inv lk w" and "written lk w"
  shows "written lk (snd (addserver_command lk env i ip nm port w))"
proof -
  let ?w' = "snd (addserver_command lk env i ip nm port w)"
  have "written lk ?w'" if "server_dicts (servers ?w') = Inr ds" "info_json ?w' = Some ds" for ds
  proof -
    from addserver_invariant [OF assms(1)] have inv: "registry_inv lk ?w'" .
    from server_dicts_fields [OF that(1)] have
      k: "map item_key ds = map server_key (servers ?w')" and
      a: "map item_address ds = map address (servers ?w')" by simp_all
    have "distinct (map item_key ds)"
      using inv by (simp add: k registry_inv_def)
    moreover have "list_all (item_parsed lk) ds"
    proof -
      have "\<forall>x\<in>set (map address (servers ?w')). lk x = None"
        using inv by (auto simp: registry_inv_def list_all_iff parsed_def)
      then have "\<forall>x\<in>set (map item_address ds). lk x = None" by (simp only: a)
      then show ?thesis by (auto simp: list_all_iff item_parsed_def)
    qed
    ultimately show ?thesis by (simp add: written_def that(2))
  qed
  moreover have "written lk ?w'" if "info_json ?w' = info_json w"
    using assms(2) that by (simp add: written_def)
  ultimately show ?thesis
    using addserver_effect [of lk env i ip nm port w] by auto
qed

lemma step_written:
  assumes "registry_inv lk w" and "written lk w"
  shows "written lk (step lk e w)"
proof (cases e)
  case (Add env i ip nm port)
  with addserver_written [OF assms] show ?thesis by simp
next
  case (Remove i ip)
  with assms(2) show ?thesis by (simp add: written_def removeserver_keeps_file)
next
  case (Ready env)
  with assms(2) show ?thesis
    by (simp add: written_def on_ready_def log_line_def read_json_file_info_json)
next
  case (Tick env)
  with assms(2) show ?thesis by (simp add: written_def poll_servers_keeps_file)
next
  case Restart
  with assms(2) show ?thesis by (simp add: written_def restarted_def)
qed

lemma run_invariant:
  assumes "registry_inv lk w"
  shows "registry_inv lk (run lk es w)"
  using assms
proof (induction es arbitrary: w)
  case Nil
  then show ?case by simp
next
  case (Cons e es)
  from step_invariant [OF Cons.prems] show ?case by (simp add: Cons.IH)
qed

lemma run_written:
  assumes "registry_inv lk w" and "written lk w"
  shows "written lk (run lk es w)"
  using assms
proof (induction es arbitrary: w)
  case Nil
  then show ?case by simp
next
  case (Cons e es)
  from step_invariant [OF Cons.prems(1)] step_written [OF Cons.prems] show ?case
    by (simp add: Cons.IH)
qed

lemma run_from_empty:
  assumes "servers w0 = []"
  shows "registry_inv lk (run lk es w0)"
  by (rule run_invariant) (simp add: registry_inv_def assms)

lemma run_from_no_file:
  assumes "servers w0 = []" and "info_json w0 = None"
  shows "written lk (run lk es w0)"
  by (rule run_written) (simp_all add: registry_inv_def written_def assms)

lemma start_and_tick_registry:
  "servers (run lookup_example start_and_tick two_records) = [creative, survival]"
proof -
  have "servers (on_ready lookup_example env_up two_records) = [creative, survival]"
    by (simp add: on_ready_def read_json_file_def load_item_def rebuild_def resolve_def
          log_line_def example_defs)
  then show ?thesis
    by (simp add: start_and_tick_def poll_servers_keeps_registry)
qed

lemma two_added_world:
  "servers (run lookup_example two_added (world_of [] None)) = [survival, creative]
   \<and> info_json (run lookup_example two_added (world_of [] None))
       = Some [survival_item, creative_item]"
  by (simp add: two_added_def addserver_command_def make_message_def get_content_def
        write_json_file_def server_dict_def set_content_def log_line_def Let_def
        example_defs str_defs)

subsection \<open>Recovery\<close>

text \<open>
  Claim C8. Recovery starts from the empty registry, on a snapshot that the bot has
  written. Every record that resolves is recovered, in the order of the file, also after
  records that failed; every other record is dropped with one warning. So with \<open>N\<close>
  records of which \<open>M\<close> resolve, the registry has \<open>M\<close> entries and \<open>N - M\<close> warnings are
  added to the log. No message is created or edited.
\<close>

theorem recovery_partial_failure:
  assumes "servers w0 = []" and "info_json w0 = None" and "w = run lk es w0"
    and "servers w = []" and "info_json w = Some items"
  shows "servers (read_json_file lk env w) = map (recovered env) (filter (resolves env) items)
         \<and> length (servers (read_json_file lk env w)) = length (filter (resolves env) items)
         \<and> length (filter is_warning (printed (read_json_file lk env w)))
             = length (filter is_warning (printed w))
               + (length items - length (filter (resolves env) items))
         \<and> message_content (read_json_file lk env w) = message_content w"
proof -
  from run_from_no_file [OF assms(1,2), of lk es] assms(3,5)
  have d: "distinct (map item_key items)" and p: "list_all (item_parsed lk) items"
    by (simp_all add: written_def)
  from p have "filter (loads lk env) items = filter (resolves env) items"
    by (auto simp: loads_def list_all_iff intro: filter_cong)
  with read_json_file_fresh [OF assms(4,5) d, of lk env] show ?thesis by simp
qed

text \<open>
  Survival and Creative are added and saved, and a new process starts when the guild of
  Creative is gone: Creative is dropped with a warning, Survival is recovered.
\<close>

theorem recovery_partial_failure_witness:
  "info_json (run lookup_example (two_added @ [Restart]) (world_of [] None))
     = Some [survival_item, creative_item]
   \<and> servers (read_json_file lookup_example env_guild_2_gone
                (run lookup_example (two_added @ [Restart]) (world_of [] None)))
       = [survival]
   \<and> length (filter is_warning
        (printed (read_json_file lookup_example env_guild_2_gone
                    (run lookup_example (two_added @ [Restart]) (world_of [] None)))))
       = 1"
proof -
  let ?w = "run lookup_example (two_added @ [Restart]) (world_of [] None)"
  have w: "?w = restarted (run lookup_example two_added (world_of [] None))"
    by (simp add: two_added_def)
  have a: "servers (world_of [] None) = []" "info_json (world_of [] None) = None"
    by (simp_all add: world_of_def)
  have b: "?w = run lookup_example (two_added @ [Restart]) (world_of [] None)"
    by simp
  have c: "servers ?w = []"
    by (simp add: w restarted_def)
  have d: "info_json ?w = Some [survival_item, creative_item]"
    by (simp add: w restarted_def two_added_world)
  have r: "resolves env_guild_2_gone survival_item" "\<not> resolves env_guild_2_gone creative_item"
    by (simp_all add: resolves_def resolve_def example_defs)
  have s: "recovered env_guild_2_gone survival_item = survival"
    by (simp add: recovered_def resolve_def example_defs)
  have none: "filter is_warning (printed ?w) = []"
    by (simp add: w restarted_def two_added_def addserver_command_def make_message_def
          get_content_def write_json_file_def server_dict_def set_content_def log_line_def
          Let_def is_warning_def example_defs str_defs)
  show ?thesis
    using recovery_partial_failure [OF a b c d, of env_guild_2_gone] r s d none
    by simp
qed

text \<open>Save, restart and load, for a registry that has its invariant.\<close>

lemma save_load_general:
  assumes "registry_inv lk w"
    and "info_json (snd (write_json_file env w)) = Some items"
    and "\<forall>d\<in>set items. resolves env' d"
  shows "fst (write_json_file env w) = None
         \<and> map server_key (servers (on_ready lk env' (restarted (snd (write_json_file env w)))))
             = map server_key (servers w)"
proof -
  from assms(1) have complete: "\<forall>s\<in>set (servers w). complete s"
    by (simp add: registry_inv_def list_all_iff)
  from server_dicts_complete [OF complete] obtain ds where
    ds: "server_dicts (servers w) = Inr ds" "map item_key ds = map server_key (servers w)"
    by blast
  then have saved: "write_json_file env w
      = (None, log_line env ''Successfully wrote info.json'' (w\<lparr>info_json := Some ds\<rparr>))"
    by (simp add: write_json_file_def)
  with assms(2) have items: "items = ds" by (simp add: log_line_def)
  let ?w = "restarted (snd (write_json_file env w))"
  have a: "servers ?w = []" by (simp add: restarted_def)
  have b: "info_json ?w = Some ds" by (simp add: restarted_def saved log_line_def)
  have c: "distinct (map item_key ds)"
    using assms(1) by (simp add: ds(2) registry_inv_def)
  have "\<forall>x\<in>set (map address (servers w)). lk x = None"
    using assms(1) by (auto simp: registry_inv_def list_all_iff parsed_def)
  then have "\<forall>x\<in>set (map item_address ds). lk x = None"
    using server_dicts_fields [OF ds(1)] by simp
  then have "\<forall>d\<in>set ds. loads lk env' d"
    using assms(3) items by (auto simp: loads_def item_parsed_def)
  then have all: "filter (loads lk env') ds = ds"
    by simp
  from read_json_file_fresh [OF a b c, of lk env']
  have "servers (read_json_file lk env' ?w) = map (recovered env') ds"
    by (simp add: all)
  then have "map server_key (servers (on_ready lk env' ?w)) = map item_key ds"
    by (simp add: on_ready_def log_line_def a server_key_recovered comp_def)
  with saved ds(2) show ?thesis by simp
qed

text \<open>
  Claim C7. For every registry the bot reaches: the save succeeds, and when every
  record of the snapshot it wrote resolves, a new process that loads the snapshot has
  the same (name, address) pairs in its registry, in the same order.
\<close>

theorem save_load_roundtrip:
  assumes "servers w0 = []" and "w = run lk es w0"
    and "info_json (snd (write_json_file env w)) = Some items"
    and "\<forall>d\<in>set items. resolves env' d"
  shows "fst (write_json_file env w) = None
         \<and> map server_key (servers (on_ready lk env' (restarted (snd (write_json_file env w)))))
             = map server_key (servers w)"
proof -
  from run_from_empty [OF assms(1), of lk es] assms(2)
  have "registry_inv lk w" by simp
  then show ?thesis using assms(3,4) by (rule save_load_general)
qed

text \<open>The registry after a start and a tick is saved and loaded again.\<close>

theorem save_load_roundtrip_witness:
  "fst (write_json_file env_up (run lookup_example start_and_tick two_records)) = None
   \<and> info_json (snd (write_json_file env_up (run lookup_example start_and_tick two_records)))
       = Some [creative_item, survival_item]
   \<and> map server_key
        (servers (on_ready lookup_example env_up
                   (restarted (snd (write_json_file env_up
                                      (run lookup_example start_and_tick two_records))))))
       = [(''Creative'', ''5.6.7.8:25565''), (''Survival'', ''1.2.3.4:25565'')]"
proof -
  have a: "servers two_records = []"
    by (simp add: two_records_def)
  have b: "run lookup_example start_and_tick two_records
             = run lookup_example start_and_tick two_records"
    by simp
  have c: "info_json (snd (write_json_file env_up (run lookup_example start_and_tick two_records)))
             = Some [creative_item, survival_item]"
  proof -
    have "server_dicts [creative, survival] = Inr [creative_item, survival_item]"
      by (simp add: server_dict_def example_defs)
    then show ?thesis
      by (simp add: write_json_file_def start_and_tick_registry log_line_def)
  qed
  have d: "\<forall>d\<in>set [creative_item, survival_item]. resolves env_up d"
    by (simp add: resolves_def resolve_def example_defs)
  show ?thesis
    using save_load_roundtrip [OF a b c d] c
    by (simp add: start_and_tick_registry) (simp add: server_key_def example_defs)
qed

text \<open>
  Claim C10. A record whose name and address are those of a tracked server is skipped.
  So a second load of the snapshot appends only servers whose (name, address) pair was
  not in the registry after the first load, whatever resolves by then, and with the
  same collaborators it appends nothing. The test is on the pair: in a registry the bot
  reaches, a record that resolves and has the address of a tracked server under a name
  that no tracked server with that address has, is appended.
\<close>

theorem load_skips_known:
  "(item_key item \<in> server_key ` set (servers w) \<longrightarrow>
      servers (load_item lk env item w) = servers w)
   \<and> (\<exists>extra. servers (read_json_file lk env2 (read_json_file lk env1 w))
                  = servers (read_json_file lk env1 w) @ extra
               \<and> (\<forall>x\<in>set extra.
                     server_key x \<notin> server_key ` set (servers (read_json_file lk env1 w))))
   \<and> servers (read_json_file lk env (read_json_file lk env w)) = servers (read_json_file lk env w)
   \<and> (servers w0 = [] \<and> w = run lk es w0
        \<and> item_address item \<in> address ` set (servers w)
        \<and> item_key item \<notin> server_key ` set (servers w) \<and> resolves env item \<longrightarrow>
        servers (load_item lk env item w) = servers w @ [recovered env item])"
proof (intro conjI impI)
  assume "item_key item \<in> server_key ` set (servers w)"
  from load_item_known [OF this] show "servers (load_item lk env item w) = servers w"
    by simp
next
  let ?w1 = "read_json_file lk env1 w"
  show "\<exists>extra. servers (read_json_file lk env2 ?w1) = servers ?w1 @ extra
               \<and> (\<forall>x\<in>set extra. server_key x \<notin> server_key ` set (servers ?w1))"
  proof (cases "info_json ?w1")
    case None
    then show ?thesis by (simp add: read_json_file_servers)
  next
    case (Some items)
    let ?w = "log_line env2 ''Reading info.json'' ?w1"
    obtain extra where "servers (load_items lk env2 items ?w) = servers ?w @ extra"
      "\<forall>x\<in>set extra. complete x \<and> parsed lk x \<and> server_key x \<notin> server_key ` set (servers ?w)"
      using load_items_extends [of lk env2 items ?w] by blast
    moreover have "servers ?w = servers ?w1" by (simp add: log_line_def)
    ultimately show ?thesis using Some by (auto simp: read_json_file_servers)
  qed
next
  let ?w1 = "read_json_file lk env w"
  show "servers (read_json_file lk env ?w1) = servers ?w1"
  proof (cases "info_json w")
    case None
    then have "info_json ?w1 = None" by (simp add: read_json_file_info_json)
    then show ?thesis by (simp add: read_json_file_servers)
  next
    case (Some items)
    then have snap: "info_json ?w1 = Some items" by (simp add: read_json_file_info_json)
    let ?w = "log_line env ''Reading info.json'' ?w1"
    have "servers ?w1 = servers (load_items lk env items (log_line env ''Reading info.json'' w))"
      by (simp add: read_json_file_servers Some)
    then have "\<forall>d\<in>set items. item_key d \<in> server_key ` set (servers ?w1) \<or> \<not> loads lk env d"
      using load_items_settled [of items lk env "log_line env ''Reading info.json'' w"] by simp
    then have "\<forall>d\<in>set items. item_key d \<in> server_key ` set (servers ?w) \<or> \<not> loads lk env d"
      by (simp add: log_line_def)
    from load_items_nothing_new [OF this] have "servers (load_items lk env items ?w) = servers ?w1"
      by (simp add: log_line_def)
    with snap show ?thesis by (simp add: read_json_file_servers)
  qed
next
  assume h: "servers w0 = [] \<and> w = run lk es w0
        \<and> item_address item \<in> address ` set (servers w)
        \<and> item_key item \<notin> server_key ` set (servers w) \<and> resolves env item"
  then have "registry_inv lk w"
    using run_from_empty [of w0 lk es] by simp
  with h have "item_parsed lk item"
    by (auto simp: registry_inv_def list_all_iff parsed_def item_parsed_def)
  with h have "loads lk env item" by (simp add: loads_def)
  with h show "servers (load_item lk env item w) = servers w @ [recovered env item]"
    using load_item_loaded by blast
qed

text \<open>
  Survival is skipped when tracked; Creative, dropped by the first load, is recovered by
  the second and Survival is not doubled; a second load with the same collaborators
  changes nothing; Hardcore, with the address of Survival, is appended.
\<close>

theorem load_skips_known_witness:
  "servers (load_item lookup_example env_up survival_item (world_of [survival] None)) = [survival]
   \<and> servers (read_json_file lookup_example env_up
               (read_json_file lookup_example env_guild_2_gone
                  (world_of [] (Some [survival_item, creative_item]))))
       = [survival, creative]
   \<and> servers (read_json_file lookup_example env_up
               (read_json_file lookup_example env_up
                  (world_of [] (Some [survival_item, creative_item]))))
       = [survival, creative]
   \<and> map server_key
        (servers (load_item lookup_example env_up hardcore_item
                    (run lookup_example start_and_tick two_records)))
       = [(''Creative'', ''5.6.7.8:25565''), (''Survival'', ''1.2.3.4:25565''),
          (''Hardcore'', ''1.2.3.4:25565'')]"
proof -
  have a: "item_key survival_item \<in> server_key ` set (servers (world_of [survival] None))"
    by (simp add: item_key_def server_key_def example_defs)
  have b: "servers two_records = []
           \<and> run lookup_example start_and_tick two_records
               = run lookup_example start_and_tick two_records
           \<and> item_address hardcore_item
               \<in> address ` set (servers (run lookup_example start_and_tick two_records))
           \<and> item_key hardcore_item
               \<notin> server_key ` set (servers (run lookup_example start_and_tick two_records))
           \<and> resolves env_up hardcore_item"
    by (simp add: start_and_tick_registry)
       (simp add: item_key_def server_key_def resolves_def resolve_def example_defs)
  have first: "servers (read_json_file lookup_example env_up
                          (world_of [] (Some [survival_item, creative_item])))
                 = [survival, creative]"
    by (simp add: read_json_file_def load_item_def rebuild_def resolve_def log_line_def
          example_defs)
  have second: "servers (read_json_file lookup_example env_up
               (read_json_file lookup_example env_guild_2_gone
                  (world_of [] (Some [survival_item, creative_item]))))
       = [survival, creative]"
    by (simp add: read_json_file_def load_item_def rebuild_def resolve_def log_line_def
          example_defs)
  have r: "server_key (recovered env_up hardcore_item) = (''Hardcore'', ''1.2.3.4:25565'')"
    by (simp add: server_key_recovered item_key_def example_defs)
  show ?thesis
    using load_skips_known [where item = survival_item and w = "world_of [survival] None"
            and env = env_up and lk = lookup_example] a
          load_skips_known [where item = hardcore_item
            and w = "run lookup_example start_and_tick two_records"
            and w0 = two_records and es = start_and_tick
            and env = env_up and lk = lookup_example] b
          load_skips_known [where env = env_up and lk = lookup_example
            and w = "world_of [] (Some [survival_item, creative_item])"]
          first second r
    by (simp add: start_and_tick_registry) (simp add: server_key_def example_defs)
qed

subsection \<open>Removal in the registries the bot reaches\<close>

text \<open>
  Claim C6, as the code has it. In every registry the bot reaches, when no target of
  the caller's guild has an address containing the fragment, the registry is left as it
  is; the response is the empty-registry message when the registry is empty, and
  otherwise lists the addresses of all targets of the registry, those of other guilds
  included.
\<close>

theorem remove_not_found_response:
  assumes "servers w0 = []" and "w = run lk es w0"
    and "\<forall>s\<in>set (servers w). \<not> (sublist ip (address s) \<and> in_guild (guild_id (interaction_guild i)) s)"
  shows "removeserver_command i ip w =
           (Inr \<lparr>content =
                   (if servers w = [] then ''There are no servers added.''
                    else ''Did not find server.'' @ nl @ nl @ ''Existing Servers:'' @ nl
                         @ concat (map (\<lambda>s. address s @ nl) (servers w))),
                 embed = None\<rparr>, w)"
proof -
  from run_from_empty [OF assms(1), of lk es] assms(2)
  have "\<forall>s\<in>set (servers w). message s \<noteq> None"
    by (simp add: registry_inv_def list_all_iff complete_def)
  then show ?thesis using assms(3) by (rule removeserver_no_match)
qed

text \<open>A fragment that matches nothing, from guild 1, with Creative tracked in guild 2.\<close>

theorem remove_not_found_response_witness:
  "removeserver_command from_channel_10 ''zzz'' (run lookup_example start_and_tick two_records)
     = (Inr \<lparr>content = ''Did not find server.'' @ nl @ nl @ ''Existing Servers:'' @ nl
                        @ ''5.6.7.8:25565'' @ nl @ ''1.2.3.4:25565'' @ nl,
             embed = None\<rparr>, run lookup_example start_and_tick two_records)"
proof -
  have a: "servers two_records = []"
    by (simp add: two_records_def)
  have b: "run lookup_example start_and_tick two_records
             = run lookup_example start_and_tick two_records"
    by simp
  have c: "\<forall>s\<in>set (servers (run lookup_example start_and_tick two_records)).
        \<not> (sublist ''zzz'' (address s) \<and> in_guild (guild_id (interaction_guild from_channel_10)) s)"
    by (simp add: start_and_tick_registry) (simp add: example_defs sublist_code(3))
  show ?thesis
    using remove_not_found_response [OF a b c]
    by (simp add: start_and_tick_registry) (simp add: example_defs)
qed

text \<open>
  The response there is not the list of the specification, which holds the addresses
  of the caller's scope only: the address of Creative is in it.
\<close>

theorem remove_not_found_counterexample:
  "fst (removeserver_command from_channel_10 ''zzz'' (run lookup_example start_and_tick two_records))
     = Inr \<lparr>content = ''Did not find server.'' @ nl @ nl @ ''Existing Servers:'' @ nl
                       @ ''5.6.7.8:25565'' @ nl @ ''1.2.3.4:25565'' @ nl,
            embed = None\<rparr>
   \<and> spec_not_found_response from_channel_10
        (servers (run lookup_example start_and_tick two_records))
       = ''Did not find server.'' @ nl @ nl @ ''Existing Servers:'' @ nl @ ''1.2.3.4:25565'' @ nl
   \<and> fst (removeserver_command from_channel_10 ''zzz''
            (run lookup_example start_and_tick two_records))
       \<noteq> Inr \<lparr>content = spec_not_found_response from_channel_10
                            (servers (run lookup_example start_and_tick two_records)),
               embed = None\<rparr>"
  by (simp add: removeserver_command_def start_and_tick_registry)
     (simp add: spec_not_found_response_def spec_scope_of_target_def spec_scope_of_caller_def
        example_defs sublist_code(3) nl_def)

text \<open>
  Claim C9. The empty fragment is contained in every address, so in every registry the
  bot reaches, a remove with it, from a guild that has a tracked target, removes the
  first target of that guild in registry order and nothing else.
\<close>

theorem remove_empty_fragment:
  assumes "servers w0 = []" and "w = run lk es w0"
    and "\<exists>s\<in>set (servers w). in_guild (guild_id (interaction_guild i)) s"
  shows "\<exists>pre s post.
           servers w = pre @ s # post
           \<and> (\<forall>t\<in>set pre. \<not> in_guild (guild_id (interaction_guild i)) t)
           \<and> in_guild (guild_id (interaction_guild i)) s
           \<and> removeserver_command i '''' w
               = (Inr \<lparr>content = ''Removed server!'', embed = None\<rparr>, w\<lparr>servers := pre @ post\<rparr>)"
proof -
  from run_from_empty [OF assms(1), of lk es] assms(2)
  have "\<forall>s\<in>set (servers w). message s \<noteq> None"
    by (simp add: registry_inv_def list_all_iff complete_def)
  then show ?thesis using assms(3) by (rule removeserver_empty_fragment)
qed

text \<open>Creative (guild 2) is first in the registry; the caller is in guild 1.\<close>

theorem remove_empty_fragment_witness:
  "removeserver_command from_channel_11 '''' (run lookup_example start_and_tick two_records)
     = (Inr \<lparr>content = ''Removed server!'', embed = None\<rparr>,
        (run lookup_example start_and_tick two_records)\<lparr>servers := [creative]\<rparr>)"
proof -
  have a: "servers two_records = []"
    by (simp add: two_records_def)
  have b: "run lookup_example start_and_tick two_records
             = run lookup_example start_and_tick two_records"
    by simp
  have c: "\<exists>s\<in>set (servers (run lookup_example start_and_tick two_records)).
             in_guild (guild_id (interaction_guild from_channel_11)) s"
    by (simp add: start_and_tick_registry) (simp add: in_guild_def example_defs)
  from remove_empty_fragment [OF a b c] obtain pre s post where
    split: "[creative, survival] = pre @ s # post"
    and pre: "\<forall>t\<in>set pre. \<not> in_guild (guild_id (interaction_guild from_channel_11)) t"
    and s: "in_guild (guild_id (interaction_guild from_channel_11)) s"
    and r: "removeserver_command from_channel_11 '''' (run lookup_example start_and_tick two_records)
               = (Inr \<lparr>content = ''Removed server!'', embed = None\<rparr>,
                  (run lookup_example start_and_tick two_records)\<lparr>servers := pre @ post\<rparr>)"
    by (auto simp: start_and_tick_registry)
  have c2: "\<not> in_guild (guild_id (interaction_guild from_channel_11)) creative"
    by (simp add: in_guild_def example_defs)
  have s1: "in_guild (guild_id (interaction_guild from_channel_11)) survival"
    by (simp add: in_guild_def example_defs)
  from split c2 s1 pre s have "pre = [creative] \<and> post = []"
    by (cases pre; cases "tl pre") (auto simp: Cons_eq_append_conv)
  with r show ?thesis by simp
qed

end
